theory Spec2Isabelle
  imports Main "HOL-Library.Sublist"
begin

section \<open>Regular expressions as the script uses them\<close>

text \<open>
  \<^verbatim>\<open>etc/HeaderReformat.py\<close> is a Python 2 script: every decision it takes is the result of
  \<^verbatim>\<open>re.search\<close> on a byte string. The patterns of the script only repeat single character
  classes, so the pattern language below has repetition of classes only. The matcher is the
  backtracking matcher of \<^verbatim>\<open>re\<close>: it lists the ways a pattern can match at the start of a
  string in the order in which \<^verbatim>\<open>re\<close> tries them (a greedy operator tries the longest
  repetition first, a lazy one the shortest first, \<^verbatim>\<open>?\<close> tries its operand before the empty
  match), and \<^verbatim>\<open>re.search\<close> returns the first of them at the leftmost start position that
  has one.
\<close>

abbreviation LF :: char where "LF \<equiv> CHR 0x0A"
abbreviation CR :: char where "CR \<equiv> CHR 0x0D"

datatype cclass =
    Lit char    \<comment> \<open>one literal character, also an escaped one such as \<^verbatim>\<open>\-\<close>\<close>
  | Dot         \<comment> \<open>\<^verbatim>\<open>.\<close> without \<^verbatim>\<open>re.DOTALL\<close>: anything but a line feed\<close>
  | AnyChar     \<comment> \<open>\<^verbatim>\<open>.\<close> under \<^verbatim>\<open>re.DOTALL\<close>\<close>
  | Space       \<comment> \<open>\<^verbatim>\<open>\s\<close> on byte strings\<close>
  | Digit       \<comment> \<open>\<^verbatim>\<open>\d\<close> and \<^verbatim>\<open>[0-9]\<close>\<close>

fun cmatch :: "cclass \<Rightarrow> char \<Rightarrow> bool" where
  "cmatch (Lit a) c = (c = a)"
| "cmatch Dot c = (c \<noteq> LF)"
| "cmatch AnyChar c = True"
| "cmatch Space c = (c = CHR '' '' \<or> c = CHR 0x09 \<or> c = LF \<or> c = CHR 0x0B \<or> c = CHR 0x0C \<or> c = CR)"
| "cmatch Digit c = (c = CHR ''0'' \<or> c = CHR ''1'' \<or> c = CHR ''2'' \<or> c = CHR ''3'' \<or> c = CHR ''4''
      \<or> c = CHR ''5'' \<or> c = CHR ''6'' \<or> c = CHR ''7'' \<or> c = CHR ''8'' \<or> c = CHR ''9'')"

datatype regex =
    Chr cclass           \<comment> \<open>one character of a class\<close>
  | Str string           \<comment> \<open>a run of literal characters\<close>
  | Seq "regex list"     \<comment> \<open>concatenation\<close>
  | Grp nat regex        \<comment> \<open>capturing group number \<open>n\<close>\<close>
  | Opt regex            \<comment> \<open>greedy \<^verbatim>\<open>?\<close>\<close>
  | Star cclass          \<comment> \<open>greedy \<^verbatim>\<open>*\<close>\<close>
  | LazyStar cclass      \<comment> \<open>lazy \<^verbatim>\<open>*?\<close>\<close>
  | Plus cclass          \<comment> \<open>greedy \<^verbatim>\<open>+\<close>\<close>
  | Times nat cclass     \<comment> \<open>\<^verbatim>\<open>{n,n}\<close>\<close>

type_synonym groups = "nat \<Rightarrow> string option"

definition no_groups :: groups where
  "no_groups = (\<lambda>n. None)"

text \<open>The ways of splitting a string into a repetition of a class and the rest, in the
  order of trial: longest first for the greedy star, shortest first for the lazy one.\<close>

fun star_greedy :: "cclass \<Rightarrow> string \<Rightarrow> (string \<times> string) list" where
  "star_greedy c [] = [([], [])]"
| "star_greedy c (x # xs) =
     (if cmatch c x then map (\<lambda>(m, r). (x # m, r)) (star_greedy c xs) else []) @ [([], x # xs)]"

fun star_lazy :: "cclass \<Rightarrow> string \<Rightarrow> (string \<times> string) list" where
  "star_lazy c [] = [([], [])]"
| "star_lazy c (x # xs) =
     ([], x # xs) # (if cmatch c x then map (\<lambda>(m, r). (x # m, r)) (star_lazy c xs) else [])"

fun strip_prefix :: "string \<Rightarrow> string \<Rightarrow> string option" where
  "strip_prefix [] s = Some s"
| "strip_prefix (a # w) [] = None"
| "strip_prefix (a # w) (x # xs) = (if x = a then strip_prefix w xs else None)"

fun take_class :: "nat \<Rightarrow> cclass \<Rightarrow> string \<Rightarrow> (string \<times> string) option" where
  "take_class 0 c s = Some ([], s)"
| "take_class (Suc n) c [] = None"
| "take_class (Suc n) c (x # xs) =
     (if cmatch c x then map_option (\<lambda>(m, r). (x # m, r)) (take_class n c xs) else None)"

text \<open>\<open>ms r s g\<close>: every match of \<open>r\<close> at the start of \<open>s\<close>, groups \<open>g\<close> set so far, as
  (matched text, rest, groups), in the order of trial.\<close>

fun ms :: "regex \<Rightarrow> string \<Rightarrow> groups \<Rightarrow> (string \<times> string \<times> groups) list"
  and ms_seq :: "regex list \<Rightarrow> string \<Rightarrow> groups \<Rightarrow> (string \<times> string \<times> groups) list" where
  "ms (Chr c) s g = (case s of [] \<Rightarrow> [] | x # xs \<Rightarrow> if cmatch c x then [([x], xs, g)] else [])"
| "ms (Str w) s g = (case strip_prefix w s of None \<Rightarrow> [] | Some r \<Rightarrow> [(w, r, g)])"
| "ms (Seq rs) s g = ms_seq rs s g"
| "ms (Grp n r) s g = map (\<lambda>(m, s', g'). (m, s', g'(n \<mapsto> m))) (ms r s g)"
| "ms (Opt r) s g = ms r s g @ [([], s, g)]"
| "ms (Star c) s g = map (\<lambda>(m, r). (m, r, g)) (star_greedy c s)"
| "ms (LazyStar c) s g = map (\<lambda>(m, r). (m, r, g)) (star_lazy c s)"
| "ms (Plus c) s g =
     (case s of [] \<Rightarrow> []
      | x # xs \<Rightarrow> if cmatch c x then map (\<lambda>(m, r). (x # m, r, g)) (star_greedy c xs) else [])"
| "ms (Times n c) s g = (case take_class n c s of None \<Rightarrow> [] | Some (m, r) \<Rightarrow> [(m, r, g)])"
| "ms_seq [] s g = [([], s, g)]"
| "ms_seq (r # rs) s g =
     concat (map (\<lambda>(m1, s1, g1). map (\<lambda>(m2, s2, g2). (m1 @ m2, s2, g2)) (ms_seq rs s1 g1))
                 (ms r s g))"

text \<open>\<^verbatim>\<open>pattern.search(s)\<close>: the groups of the first match at the leftmost start position,
  the end of the string included; \<open>None\<close> when no position has a match.\<close>

fun search :: "regex \<Rightarrow> string \<Rightarrow> groups option" where
  "search r [] = (case ms r [] no_groups of (m, s', g) # _ \<Rightarrow> Some g | [] \<Rightarrow> None)"
| "search r (x # xs) =
     (case ms r (x # xs) no_groups of (m, s', g) # _ \<Rightarrow> Some g | [] \<Rightarrow> search r xs)"

section \<open>The patterns of the script\<close>

text \<open>Line 24, compiled with \<^verbatim>\<open>re.DOTALL\<close>: \<^verbatim>\<open>/\*(.*?)\*/\r?\n\n?/\*(.*?)\*/\<close>.\<close>

definition re_double :: regex where
  "re_double = Seq [Str ''/*'', Grp 1 (LazyStar AnyChar), Str ''*/'', Opt (Chr (Lit CR)),
     Chr (Lit LF), Opt (Chr (Lit LF)), Str ''/*'', Grp 2 (LazyStar AnyChar), Str ''*/'']"

text \<open>Line 32: \<^verbatim>\<open>\(C\)\<close>.\<close>

definition re_marker :: regex where
  "re_marker = Str ''(C)''"

text \<open>Line 37: \<^verbatim>\<open>\(C\)\s*Copyright\s*(\d+)\-?(\d+)?,\s*(by)?\s*(.*)?\<close>.\<close>

definition re_copyright :: regex where
  "re_copyright = Seq [Str ''(C)'', Star Space, Str ''Copyright'', Star Space, Grp 1 (Plus Digit),
     Opt (Chr (Lit (CHR ''-''))), Opt (Grp 2 (Plus Digit)), Chr (Lit (CHR '','')), Star Space,
     Opt (Grp 3 (Str ''by'')), Star Space, Opt (Grp 4 (Star Dot))]"

text \<open>Line 44: \<^verbatim>\<open>(.*)(\sand)\<close>.\<close>

definition re_and :: regex where
  "re_and = Seq [Grp 1 (Star Dot), Grp 2 (Seq [Chr Space, Str ''and''])]"

text \<open>Line 52: \<^verbatim>\<open>Original\sAuthor:\s*(.*)\<close>.\<close>

definition re_original_author :: regex where
  "re_original_author = Seq [Str ''Original'', Chr Space, Str ''Author:'', Star Space,
     Grp 1 (Star Dot)]"

text \<open>Line 54: \<^verbatim>\<open>\@author\s*(Original)?(\:)?\s*(.*)\<close>.\<close>

definition re_author_tag :: regex where
  "re_author_tag = Seq [Str ''@author'', Star Space, Opt (Grp 1 (Str ''Original'')),
     Opt (Grp 2 (Chr (Lit (CHR '':'')))), Star Space, Grp 3 (Star Dot)]"

text \<open>Line 64: \<^verbatim>\<open>(.*)?([0-9]{4,4})(.*)?Initial\<close>.\<close>

definition re_initial :: regex where
  "re_initial = Seq [Opt (Grp 1 (Star Dot)), Grp 2 (Times 4 Digit), Opt (Grp 3 (Star Dot)),
     Str ''Initial'']"

text \<open>Line 69: \<^verbatim>\<open>\(C\).*?[0-9]{4,4}-([0-9]{4,4})\<close>.\<close>

definition re_first_year :: regex where
  "re_first_year = Seq [Str ''(C)'', LazyStar Dot, Times 4 Digit, Chr (Lit (CHR ''-'')),
     Grp 1 (Times 4 Digit)]"

text \<open>Line 77, compiled with \<^verbatim>\<open>re.DOTALL\<close>: \<^verbatim>\<open>/\*\s*This\sprogram(.*?)\*/\<close>.\<close>

definition re_single :: regex where
  "re_single = Seq [Str ''/*'', Star Space, Str ''This'', Chr Space, Str ''program'',
     Grp 1 (LazyStar AnyChar), Str ''*/'']"

text \<open>Line 83: \<^verbatim>\<open>\@author\s*(Original)?(\:)?\s*(.*?)\<close>.\<close>

definition re_author_single :: regex where
  "re_author_single = Seq [Str ''@author'', Star Space, Opt (Grp 1 (Str ''Original'')),
     Opt (Grp 2 (Chr (Lit (CHR '':'')))), Star Space, Grp 3 (LazyStar Dot)]"

text \<open>Line 91: \<^verbatim>\<open>\@since(.*?)([0-9]{4,4})\<close>.\<close>

definition re_since :: regex where
  "re_since = Seq [Str ''@since'', Grp 1 (LazyStar Dot), Grp 2 (Times 4 Digit)]"

text \<open>Line 48: \<^verbatim>\<open>re.sub('[.]', '', authors)\<close> deletes every period.\<close>

definition remove_periods :: "string \<Rightarrow> string" where
  "remove_periods s = filter (\<lambda>c. c \<noteq> CHR ''.'') s"

section \<open>The script\<close>

text \<open>
  The script reads one file, named by its argument, and writes to standard output. A run is
  modelled on a file system (a map from paths to contents). It returns the file system it
  leaves, the arguments of its \<^verbatim>\<open>print\<close> calls in order, and the exception that ended it,
  if one did. \<^verbatim>\<open>warnings.showwarning\<close> is replaced at line 12 by a function that prints the
  message, so a warning is a \<^verbatim>\<open>print\<close> of its text.

  A Python variable holds a string or \<^verbatim>\<open>None\<close> (\<^verbatim>\<open>p.group(n)\<close> is \<^verbatim>\<open>None\<close> for a group that
  took no part in the match): variables are \<open>string option\<close>, and searching in or
  concatenating \<^verbatim>\<open>None\<close> raises \<^verbatim>\<open>TypeError\<close>.
\<close>

datatype error =
    IOError            \<comment> \<open>\<^verbatim>\<open>open(filename, 'r+')\<close> on a path with no file\<close>
  | ValueError         \<comment> \<open>\<^verbatim>\<open>mmap.mmap(f.fileno(), 0)\<close> on a file of length 0\<close>
  | TypeError          \<comment> \<open>\<^verbatim>\<open>None\<close> where a string is needed\<close>
  | Exception string   \<comment> \<open>line 40\<close>

definition default_authors :: string where
  "default_authors = ''Barak Naveh''"

definition default_year :: string where
  "default_year = ''2016''"

definition warn_no_author_2nd :: "string \<Rightarrow> string" where
  "warn_no_author_2nd filename =
     ''Cannot find original author in 2nd header: '' @ filename @ ''; using default author'' @ [LF]"

definition warn_no_initial :: "string \<Rightarrow> string" where
  "warn_no_initial filename =
     ''Cannot find Initial version in 2nd header: '' @ filename @ ''; using default year'' @ [LF]"

definition warn_no_author :: "string \<Rightarrow> string" where
  "warn_no_author filename =
     ''Cannot find author in data: '' @ filename @ ''; using default author'' @ [LF]"

definition warn_no_year :: "string \<Rightarrow> string" where
  "warn_no_year filename =
     ''Cannot find year in data: '' @ filename @ ''; using default year'' @ [LF]"

definition warn_no_headers :: "string \<Rightarrow> string" where
  "warn_no_headers filename = ''Did not find any headers: '' @ filename @ [LF]"

text \<open>Line 101.\<close>

definition copyright_line :: "string \<Rightarrow> string \<Rightarrow> string \<Rightarrow> string" where
  "copyright_line year authors filename =
     ''(C) Copyright '' @ year @ ''-2016, by '' @ authors @ '', and Contributors.'' @ '' '' @ filename"

text \<open>The result of the cascade: the warnings printed, and an error or the final values of
  the variables \<^verbatim>\<open>year\<close> and \<^verbatim>\<open>authors\<close>.\<close>

type_synonym extraction = "string list \<times> (error + string option \<times> string option)"

text \<open>Lines 35 to 48: the second header has the marker \<^verbatim>\<open>(C)\<close>.\<close>

definition copyright_branch :: "string \<Rightarrow> string \<Rightarrow> extraction" where
  "copyright_branch filename secondHeader =
     (case search re_copyright secondHeader of
        None \<Rightarrow> ([], Inl (Exception (''Cannot parse copyright statement in 2nd header: ''
                         @ filename @ [LF] @ secondHeader)))
      | Some p \<Rightarrow>
          (case p 4 of
             None \<Rightarrow> ([], Inl TypeError)
           | Some raw \<Rightarrow>
               (case search re_and raw of
                  None \<Rightarrow> ([], Inr (p 1, Some (remove_periods raw)))
                | Some q \<Rightarrow>
                    (case q 1 of
                       None \<Rightarrow> ([], Inl TypeError)
                     | Some stripped \<Rightarrow> ([], Inr (p 1, Some (remove_periods stripped)))))))"

text \<open>Lines 51 to 74: the second header has no marker.\<close>

definition original_author_branch :: "string \<Rightarrow> string \<Rightarrow> string option \<Rightarrow> string \<Rightarrow> extraction" where
  "original_author_branch filename data firstHeader secondHeader =
     (let (w1, authors) =
            (case search re_original_author secondHeader of
               Some p \<Rightarrow> ([], p 1)
             | None \<Rightarrow>
                 (case search re_author_tag data of
                    Some p2 \<Rightarrow> ([], p2 3)
                  | None \<Rightarrow> ([warn_no_author_2nd filename], Some default_authors)))
      in case search re_initial secondHeader of
           Some p \<Rightarrow> (w1, Inr (p 2, authors))
         | None \<Rightarrow>
             (case firstHeader of
                None \<Rightarrow> (w1, Inl TypeError)
              | Some fh \<Rightarrow>
                  (case search re_first_year fh of
                     None \<Rightarrow> (w1 @ [warn_no_initial filename], Inr (Some default_year, authors))
                   | Some p \<Rightarrow> (w1, Inr (p 1, authors)))))"

text \<open>Lines 77 to 99: no double header. Line 86 assigns the group to a variable
  \<^verbatim>\<open>author\<close> that nothing reads; \<^verbatim>\<open>authors\<close> keeps its default.\<close>

definition single_branch :: "string \<Rightarrow> string \<Rightarrow> extraction" where
  "single_branch filename data =
     (case search re_single data of
        Some _ \<Rightarrow>
          (let w1 = (case search re_author_single data of
                       Some p \<Rightarrow> (let author = p 3 in [])
                     | None \<Rightarrow> [warn_no_author filename]);
               (w2, year) = (case search re_since data of
                               Some p \<Rightarrow> ([], p 2)
                             | None \<Rightarrow> ([warn_no_year filename], Some default_year))
           in (w1 @ w2, Inr (year, Some default_authors)))
      | None \<Rightarrow> ([warn_no_headers filename], Inr (Some default_year, Some default_authors)))"

text \<open>Lines 24 to 99.\<close>

definition extract_headers :: "string \<Rightarrow> string \<Rightarrow> extraction" where
  "extract_headers filename data =
     (case search re_double data of
        Some p \<Rightarrow>
          (case p 2 of
             None \<Rightarrow> ([], Inl TypeError)
           | Some secondHeader \<Rightarrow>
               (case search re_marker secondHeader of
                  Some _ \<Rightarrow> copyright_branch filename secondHeader
                | None \<Rightarrow> original_author_branch filename data (p 1) secondHeader))
      | None \<Rightarrow> single_branch filename data)"

record run =
  files :: "string \<rightharpoonup> string"
  printed :: "string list"
  raised :: "error option"

text \<open>Lines 14 to 101. The file is opened and mapped, never written.\<close>

definition script :: "string \<Rightarrow> (string \<rightharpoonup> string) \<Rightarrow> run" where
  "script filename fs =
     (case fs filename of
        None \<Rightarrow> \<lparr>files = fs, printed = [], raised = Some IOError\<rparr>
      | Some data \<Rightarrow>
          if data = [] then \<lparr>files = fs, printed = [], raised = Some ValueError\<rparr>
          else
            (case extract_headers filename data of
               (ws, Inl e) \<Rightarrow> \<lparr>files = fs, printed = ws, raised = Some e\<rparr>
             | (ws, Inr (Some year, Some authors)) \<Rightarrow>
                 \<lparr>files = fs, printed = ws @ [copyright_line year authors filename], raised = None\<rparr>
             | (ws, Inr _) \<Rightarrow> \<lparr>files = fs, printed = ws, raised = Some TypeError\<rparr>))"

section \<open>Conditions named by the claims\<close>

text \<open>The condition of claim C2: the double header pattern matches, the second block has
  the marker \<^verbatim>\<open>(C)\<close>, and the copyright statement pattern does not match in it.\<close>

definition unparsable_copyright :: "string \<Rightarrow> bool" where
  "unparsable_copyright data =
     (case search re_double data of
        None \<Rightarrow> False
      | Some p \<Rightarrow>
          (case p 2 of
             None \<Rightarrow> False
           | Some secondHeader \<Rightarrow>
               search re_marker secondHeader \<noteq> None \<and> search re_copyright secondHeader = None))"

text \<open>An occurrence of \<^verbatim>\<open>\sand\<close>, the pattern of the group that line 44 strips from, at
  the start of a string.\<close>

fun space_and_prefix :: "string \<Rightarrow> bool" where
  "space_and_prefix (z # a # n # d # rest) =
     (cmatch Space z \<and> a = CHR ''a'' \<and> n = CHR ''n'' \<and> d = CHR ''d'')"
| "space_and_prefix _ = False"

section \<open>Stopping at the first match\<close>

text \<open>
  \<^verbatim>\<open>re\<close> does not list the matches: it backtracks until the rest of the pattern succeeds.
  \<open>first_ms r s g k\<close> tries the matches of \<open>r\<close> in order and returns the first result that
  the continuation \<open>k\<close> (the rest of the pattern, applied to the rest of the string and the
  groups) gives. It is proved below to agree with the list of matches, and serves to
  evaluate searches on concrete files.
\<close>

fun first_of :: "('b \<Rightarrow> 'a option) \<Rightarrow> 'b list \<Rightarrow> 'a option" where
  "first_of f [] = None"
| "first_of f (x # xs) = (case f x of Some v \<Rightarrow> Some v | None \<Rightarrow> first_of f xs)"

fun first_greedy :: "cclass \<Rightarrow> string \<Rightarrow> (string \<Rightarrow> 'a option) \<Rightarrow> 'a option" where
  "first_greedy c [] k = k []"
| "first_greedy c (x # xs) k =
     (if cmatch c x
      then (case first_greedy c xs k of Some v \<Rightarrow> Some v | None \<Rightarrow> k (x # xs))
      else k (x # xs))"

fun first_lazy :: "cclass \<Rightarrow> string \<Rightarrow> (string \<Rightarrow> 'a option) \<Rightarrow> 'a option" where
  "first_lazy c [] k = k []"
| "first_lazy c (x # xs) k =
     (case k (x # xs) of
        Some v \<Rightarrow> Some v
      | None \<Rightarrow> if cmatch c x then first_lazy c xs k else None)"

fun first_ms :: "regex \<Rightarrow> string \<Rightarrow> groups \<Rightarrow> (string \<Rightarrow> groups \<Rightarrow> 'a option) \<Rightarrow> 'a option"
  and first_seq :: "regex list \<Rightarrow> string \<Rightarrow> groups \<Rightarrow> (string \<Rightarrow> groups \<Rightarrow> 'a option) \<Rightarrow> 'a option" where
  "first_ms (Chr c) s g k = (case s of [] \<Rightarrow> None | x # xs \<Rightarrow> if cmatch c x then k xs g else None)"
| "first_ms (Str w) s g k = (case strip_prefix w s of None \<Rightarrow> None | Some r \<Rightarrow> k r g)"
| "first_ms (Seq rs) s g k = first_seq rs s g k"
| "first_ms (Grp n r) s g k =
     first_ms r s g (\<lambda>s' g'. k s' (g'(n \<mapsto> take (length s - length s') s)))"
| "first_ms (Opt r) s g k = (case first_ms r s g k of Some v \<Rightarrow> Some v | None \<Rightarrow> k s g)"
| "first_ms (Star c) s g k = first_greedy c s (\<lambda>r. k r g)"
| "first_ms (LazyStar c) s g k = first_lazy c s (\<lambda>r. k r g)"
| "first_ms (Plus c) s g k =
     (case s of [] \<Rightarrow> None
      | x # xs \<Rightarrow> if cmatch c x then first_greedy c xs (\<lambda>r. k r g) else None)"
| "first_ms (Times n c) s g k = (case take_class n c s of None \<Rightarrow> None | Some (m, r) \<Rightarrow> k r g)"
| "first_seq [] s g k = k s g"
| "first_seq (r # rs) s g k = first_ms r s g (\<lambda>s1 g1. first_seq rs s1 g1 k)"

text \<open>A year range \<^verbatim>\<open>YYYY-YYYY\<close> at the start of a string, and the absence of one that
  starts inside \<open>m\<close> when \<open>t\<close> follows it.\<close>

definition year_range_prefix :: "string \<Rightarrow> bool" where
  "year_range_prefix s =
     (case take_class 4 Digit s of
        None \<Rightarrow> False
      | Some (y1, r) \<Rightarrow>
          (case r of
             [] \<Rightarrow> False
           | x # r' \<Rightarrow> x = CHR ''-'' \<and> take_class 4 Digit r' \<noteq> None))"

fun no_range_before :: "string \<Rightarrow> string \<Rightarrow> bool" where
  "no_range_before [] t = True"
| "no_range_before (x # m) t = (\<not> year_range_prefix (x # m @ t) \<and> no_range_before m t)"

text \<open>No match of \<open>r\<close> starts inside \<open>a\<close> when \<open>t\<close> follows it: the search in \<open>a @ t\<close>
  reaches the start of \<open>t\<close>.\<close>

fun no_match_before :: "regex \<Rightarrow> string \<Rightarrow> string \<Rightarrow> bool" where
  "no_match_before r [] t = True"
| "no_match_before r (x # a) t = (List.null (ms r (x # a @ t) no_groups) \<and> no_match_before r a t)"

section \<open>Facts about the matcher\<close>

lemmas re_defs = re_double_def re_marker_def re_copyright_def re_and_def re_original_author_def
  re_author_tag_def re_initial_def re_first_year_def re_single_def re_author_single_def re_since_def

lemma strip_prefix_iff: "strip_prefix w s = Some r \<longleftrightarrow> s = w @ r"
  by (induction w s rule: strip_prefix.induct) auto

lemma strip_prefix_iff2: "Some r = strip_prefix w s \<longleftrightarrow> s = w @ r"
  using strip_prefix_iff[of w s r] by auto

lemma strip_prefix_None_iff: "strip_prefix w s = None \<longleftrightarrow> \<not> prefix w s"
  by (induction w s rule: strip_prefix.induct) auto

lemma star_greedy_set:
  "(m, r) \<in> set (star_greedy c s) \<longleftrightarrow> s = m @ r \<and> list_all (cmatch c) m"
proof (induction s arbitrary: m)
  case Nil then show ?case by auto
next
  case (Cons x xs) then show ?case by (cases m) auto
qed

lemma star_lazy_set:
  "(m, r) \<in> set (star_lazy c s) \<longleftrightarrow> s = m @ r \<and> list_all (cmatch c) m"
proof (induction s arbitrary: m)
  case Nil then show ?case by auto
next
  case (Cons x xs) then show ?case by (cases m) auto
qed

lemma take_class_iff:
  "take_class n c s = Some (m, r) \<longleftrightarrow> s = m @ r \<and> length m = n \<and> list_all (cmatch c) m"
proof (induction n c s arbitrary: m rule: take_class.induct)
  case (1 c s) then show ?case by auto
next
  case (2 n c) then show ?case by auto
next
  case (3 n c x xs) then show ?case by (cases m) auto
qed

lemma take_class_iff2:
  "Some (m, r) = take_class n c s \<longleftrightarrow> s = m @ r \<and> length m = n \<and> list_all (cmatch c) m"
  using take_class_iff[of n c s m r] by auto

lemma ms_seq_Cons_set:
  "(m, s', g') \<in> set (ms_seq (r # rs) s g) \<longleftrightarrow>
     (\<exists>m1 s1 g1 m2. (m1, s1, g1) \<in> set (ms r s g) \<and> (m2, s', g') \<in> set (ms_seq rs s1 g1)
        \<and> m = m1 @ m2)"
  by force

text \<open>A match consumes the text it reports.\<close>

lemma ms_consumes:
  "(m, s', g') \<in> set (ms r s g) \<Longrightarrow> s = m @ s'"
  "(m, s', g') \<in> set (ms_seq rs s g) \<Longrightarrow> s = m @ s'"
proof (induction r s g and rs s g arbitrary: m s' g' and m s' g' rule: ms_ms_seq.induct)
  case (1 c s g) then show ?case by (auto split: list.splits if_splits)
next
  case (2 w s g) then show ?case
    by (auto split: option.splits simp: strip_prefix_iff strip_prefix_iff2)
next
  case (3 rs s g) then show ?case by simp
next
  case (4 n r s g) then show ?case by auto
next
  case (5 r s g) then show ?case by auto
next
  case (6 c s g) then show ?case by (auto simp: star_greedy_set)
next
  case (7 c s g) then show ?case by (auto simp: star_lazy_set)
next
  case (8 c s g) then show ?case by (auto split: list.splits if_splits simp: star_greedy_set)
next
  case (9 n c s g) then show ?case
    by (auto split: option.splits simp: take_class_iff take_class_iff2)
next
  case (10 s g) then show ?case by simp
next
  case (11 r rs s g)
  from "11.prems" obtain m1 s1 g1 m2 where
    a: "(m1, s1, g1) \<in> set (ms r s g)" and b: "(m2, s', g') \<in> set (ms_seq rs s1 g1)"
    and c: "m = m1 @ m2"
    unfolding ms_seq_Cons_set by blast
  from "11.IH"(1)[OF a] "11.IH"(2)[OF a refl refl b] c show ?case by simp
qed

section \<open>The input file is only read\<close>

text \<open>
  Claim C8. The script never writes to its input file: the file system after a run is the
  file system before it, and a second run on the file system the first one left prints what
  the first one printed.
\<close>

theorem script_never_writes:
  "files (script filename fs) = fs \<and>
   printed (script filename (files (script filename fs))) = printed (script filename fs)"
  by (simp add: script_def split: option.splits sum.splits prod.splits)

section \<open>The empty file\<close>

text \<open>
  Claim C9. On a file of length zero the run ends with the error of the memory mapping call,
  and nothing has been printed: no warning and no copyright line.
\<close>

theorem empty_file_mmap_error:
  "fs filename = Some [] \<Longrightarrow>
     raised (script filename fs) = Some ValueError \<and> printed (script filename fs) = []"
  by (simp add: script_def)

theorem empty_file_mmap_error_witness:
  "[''A.java'' \<mapsto> ''''] ''A.java'' = Some [] \<and>
   raised (script ''A.java'' [''A.java'' \<mapsto> '''']) = Some ValueError \<and>
   printed (script ''A.java'' [''A.java'' \<mapsto> '''']) = []"
  using empty_file_mmap_error[of "[''A.java'' \<mapsto> '''']" "''A.java''"] by simp

section \<open>The single header\<close>

text \<open>
  Claim C1 says that a file with a single header \<^verbatim>\<open>/* This program ... */\<close>, a tag
  \<^verbatim>\<open>@author John Smith\<close> and a tag \<^verbatim>\<open>@since 1999\<close> is printed with the authors John Smith
  and the year 1999. On such a file the script prints the year 1999 and the default authors:
  line 86 stores the group of the \<^verbatim>\<open>@author\<close> match in \<^verbatim>\<open>author\<close>, line 101 prints
  \<^verbatim>\<open>authors\<close>.
\<close>

theorem single_header_author_not_printed:
  "search re_double (''/* This program */'' @ [LF] @ ''// @author John Smith'' @ [LF]
       @ ''// @since 1999'' @ [LF]) = None \<and>
   search re_single (''/* This program */'' @ [LF] @ ''// @author John Smith'' @ [LF]
       @ ''// @since 1999'' @ [LF]) \<noteq> None \<and>
   printed (script ''A.java'' [''A.java'' \<mapsto> ''/* This program */'' @ [LF]
       @ ''// @author John Smith'' @ [LF] @ ''// @since 1999'' @ [LF]])
     = [''(C) Copyright 1999-2016, by Barak Naveh, and Contributors. A.java'']"
  by code_simp

section \<open>No header at all\<close>

text \<open>
  Claim C6 says that every file matching neither header pattern gets the warning that no
  header was found and the line built from the default author and year. The file of length
  zero matches neither pattern and gets nothing: the run ends at line 19.
\<close>

theorem no_header_empty_file_counterexample:
  "search re_double '''' = None \<and> search re_single '''' = None \<and>
   printed (script ''A.java'' [''A.java'' \<mapsto> '''']) = [] \<and>
   raised (script ''A.java'' [''A.java'' \<mapsto> '''']) = Some ValueError"
  by code_simp

text \<open>
  Claim C6, amended. Every file that is not empty and matches neither the double header
  pattern nor the single header pattern gets exactly the warning that no header was found,
  then the line \<^verbatim>\<open>(C) Copyright 2016-2016, by Barak Naveh, and Contributors. <path>\<close>, and the
  run ends normally.
\<close>

theorem no_header_defaults:
  assumes "fs filename = Some data" and "data \<noteq> []"
    and "search re_double data = None" and "search re_single data = None"
  shows "printed (script filename fs) =
           [''Did not find any headers: '' @ filename @ [LF],
            ''(C) Copyright 2016-2016, by Barak Naveh, and Contributors. '' @ filename] \<and>
         raised (script filename fs) = None"
  using assms
  by (simp add: script_def extract_headers_def single_branch_def warn_no_headers_def
      copyright_line_def default_year_def default_authors_def)

theorem no_header_defaults_witness:
  "[''A.java'' \<mapsto> ''class A {}''] ''A.java'' = Some ''class A {}'' \<and> ''class A {}'' \<noteq> [] \<and>
   search re_double ''class A {}'' = None \<and> search re_single ''class A {}'' = None \<and>
   printed (script ''A.java'' [''A.java'' \<mapsto> ''class A {}'']) =
     [''Did not find any headers: A.java'' @ [LF],
      ''(C) Copyright 2016-2016, by Barak Naveh, and Contributors. A.java''] \<and>
   raised (script ''A.java'' [''A.java'' \<mapsto> ''class A {}'']) = None"
proof -
  have d: "search re_double ''class A {}'' = None" by code_simp
  have s: "search re_single ''class A {}'' = None" by code_simp
  show ?thesis
    using no_header_defaults[of "[''A.java'' \<mapsto> ''class A {}'']" "''A.java''" "''class A {}''",
        OF _ _ d s] d s by simp
qed

section \<open>Recognising the double header\<close>

lemma ne_in_set: "x \<in> set xs \<Longrightarrow> xs \<noteq> []"
  by (cases xs) simp_all

lemma search_hit: "ms r s no_groups \<noteq> [] \<Longrightarrow> search r s \<noteq> None"
  by (cases s; cases "ms r s no_groups") auto

lemma ms_seq_step:
  "(m1, s1, g1) \<in> set (ms r s g) \<Longrightarrow> ms_seq rs s1 g1 \<noteq> [] \<Longrightarrow> ms_seq (r # rs) s g \<noteq> []"
proof -
  assume a: "(m1, s1, g1) \<in> set (ms r s g)" and b: "ms_seq rs s1 g1 \<noteq> []"
  from b obtain m2 s2 g2 where "(m2, s2, g2) \<in> set (ms_seq rs s1 g1)"
    by (cases "ms_seq rs s1 g1") auto
  with a have "(m1 @ m2, s2, g2) \<in> set (ms_seq (r # rs) s g)"
    unfolding ms_seq_Cons_set by blast
  then show ?thesis by (rule ne_in_set)
qed

lemma ms_Str_in: "(w, t, g) \<in> set (ms (Str w) (w @ t) g)"
  by (simp add: strip_prefix_iff strip_prefix_iff2 split: option.splits)

lemma ms_Grp_lazy_any_in:
  "(h, t, g(n \<mapsto> h)) \<in> set (ms (Grp n (LazyStar AnyChar)) (h @ t) g)"
proof -
  have "(h, t) \<in> set (star_lazy AnyChar (h @ t))"
    by (simp add: star_lazy_set list_all_iff)
  then show ?thesis by force
qed

lemma ms_Opt_skip: "([], s, g) \<in> set (ms (Opt r) s g)"
  by simp

lemma ms_Opt_take: "x \<in> set (ms r s g) \<Longrightarrow> x \<in> set (ms (Opt r) s g)"
  by simp

lemma ms_Chr_in: "cmatch c x \<Longrightarrow> ([x], t, g) \<in> set (ms (Chr c) ([x] @ t) g)"
  by simp

lemma double_tail:
  "ms_seq [Str ''/*'', Grp 2 (LazyStar AnyChar), Str ''*/''] (''/*'' @ h2 @ ''*/'' @ rest) g \<noteq> []"
  apply (rule ms_seq_step[OF ms_Str_in])
  apply (rule ms_seq_step[OF ms_Grp_lazy_any_in])
  apply (rule ms_seq_step[OF ms_Str_in])
  apply simp
  done

lemma double_sep:
  assumes "sep = [LF] \<or> sep = [LF, LF] \<or> sep = [CR, LF] \<or> sep = [CR, LF, LF]"
  shows "ms_seq [Opt (Chr (Lit CR)), Chr (Lit LF), Opt (Chr (Lit LF)), Str ''/*'',
      Grp 2 (LazyStar AnyChar), Str ''*/''] (sep @ ''/*'' @ h2 @ ''*/'' @ rest) g \<noteq> []"
proof -
  have 1: "ms_seq [Opt (Chr (Lit CR)), Chr (Lit LF), Opt (Chr (Lit LF)), Str ''/*'',
      Grp 2 (LazyStar AnyChar), Str ''*/''] ([LF] @ ''/*'' @ h2 @ ''*/'' @ rest) g \<noteq> []"
    apply (rule ms_seq_step[OF ms_Opt_skip])
    apply (rule ms_seq_step[OF ms_Chr_in], simp)
    apply (rule ms_seq_step[OF ms_Opt_skip])
    apply (rule double_tail)
    done
  have 2: "ms_seq [Opt (Chr (Lit CR)), Chr (Lit LF), Opt (Chr (Lit LF)), Str ''/*'',
      Grp 2 (LazyStar AnyChar), Str ''*/''] ([LF] @ [LF] @ ''/*'' @ h2 @ ''*/'' @ rest) g \<noteq> []"
    apply (rule ms_seq_step[OF ms_Opt_skip])
    apply (rule ms_seq_step[OF ms_Chr_in], simp)
    apply (rule ms_seq_step[OF ms_Opt_take[OF ms_Chr_in]], simp)
    apply (rule double_tail)
    done
  have 3: "ms_seq [Opt (Chr (Lit CR)), Chr (Lit LF), Opt (Chr (Lit LF)), Str ''/*'',
      Grp 2 (LazyStar AnyChar), Str ''*/''] ([CR] @ [LF] @ ''/*'' @ h2 @ ''*/'' @ rest) g \<noteq> []"
    apply (rule ms_seq_step[OF ms_Opt_take[OF ms_Chr_in]], simp)
    apply (rule ms_seq_step[OF ms_Chr_in], simp)
    apply (rule ms_seq_step[OF ms_Opt_skip])
    apply (rule double_tail)
    done
  have 4: "ms_seq [Opt (Chr (Lit CR)), Chr (Lit LF), Opt (Chr (Lit LF)), Str ''/*'',
      Grp 2 (LazyStar AnyChar), Str ''*/''] ([CR] @ [LF] @ [LF] @ ''/*'' @ h2 @ ''*/'' @ rest) g \<noteq> []"
    apply (rule ms_seq_step[OF ms_Opt_take[OF ms_Chr_in]], simp)
    apply (rule ms_seq_step[OF ms_Chr_in], simp)
    apply (rule ms_seq_step[OF ms_Opt_take[OF ms_Chr_in]], simp)
    apply (rule double_tail)
    done
  from assms 1 2 3 4 show ?thesis by (auto simp del: ms.simps ms_seq.simps)
qed

text \<open>
  Claim C7 says that a file beginning with a block comment, one or more blank lines and
  another block comment is taken as a double header. Between the two comments the pattern of
  line 24 accepts one line break and at most one more line feed: with two blank lines the
  pattern does not match, and the script reports that it found no header.
\<close>

theorem double_header_two_blank_lines_counterexample:
  "search re_double (''/* a */'' @ [LF, LF, LF] @ ''/* b */'' @ [LF]) = None \<and>
   printed (script ''A.java'' [''A.java'' \<mapsto> ''/* a */'' @ [LF, LF, LF] @ ''/* b */'' @ [LF]]) =
     [''Did not find any headers: A.java'' @ [LF],
      ''(C) Copyright 2016-2016, by Barak Naveh, and Contributors. A.java'']"
  by code_simp

text \<open>
  Claim C7, amended. Every file that begins with a block comment, then a line break (a line
  feed, or a carriage return and a line feed), then at most one blank line (one more line
  feed), then another block comment, is taken as a double header: the search of line 25
  succeeds, which is the condition of the branch at line 27.
\<close>

theorem double_header_recognised:
  assumes "sep = [LF] \<or> sep = [LF, LF] \<or> sep = [CR, LF] \<or> sep = [CR, LF, LF]"
  shows "search re_double (''/*'' @ h1 @ ''*/'' @ sep @ ''/*'' @ h2 @ ''*/'' @ rest) \<noteq> None"
proof -
  have "ms re_double (''/*'' @ h1 @ ''*/'' @ sep @ ''/*'' @ h2 @ ''*/'' @ rest) no_groups \<noteq> []"
    unfolding re_double_def ms.simps
    apply (rule ms_seq_step[OF ms_Str_in])
    apply (rule ms_seq_step[OF ms_Grp_lazy_any_in])
    apply (rule ms_seq_step[OF ms_Str_in])
    apply (rule double_sep[OF assms])
    done
  then show ?thesis by (rule search_hit)
qed

theorem double_header_recognised_witness:
  "([LF, LF] = [LF] \<or> [LF, LF] = [LF, LF] \<or> [LF, LF] = [CR, LF] \<or> [LF, LF] = [CR, LF, LF]) \<and>
   search re_double (''/*'' @ '' a '' @ ''*/'' @ [LF, LF] @ ''/*'' @ '' b '' @ ''*/'' @ [LF]) \<noteq> None"
  using double_header_recognised[of "[LF, LF]" "'' a ''" "'' b ''" "[LF]"] by simp

section \<open>The matches as a set, and the groups of a successful search\<close>

lemma ms_Chr_set: "(m, s', g') \<in> set (ms (Chr c) s g) \<longleftrightarrow> (\<exists>x. s = x # s' \<and> cmatch c x \<and> m = [x] \<and> g' = g)"
  by (auto split: list.splits)

lemma ms_Str_set: "(m, s', g') \<in> set (ms (Str w) s g) \<longleftrightarrow> m = w \<and> s = w @ s' \<and> g' = g"
  by (auto split: option.splits simp: strip_prefix_iff strip_prefix_iff2)

lemma ms_Grp_set: "(m, s', g') \<in> set (ms (Grp n r) s g) \<longleftrightarrow> (\<exists>g0. (m, s', g0) \<in> set (ms r s g) \<and> g' = g0(n \<mapsto> m))"
  by force

lemma ms_Opt_set: "(m, s', g') \<in> set (ms (Opt r) s g) \<longleftrightarrow> (m, s', g') \<in> set (ms r s g) \<or> (m = [] \<and> s' = s \<and> g' = g)"
  by auto

lemma ms_Star_set: "(m, s', g') \<in> set (ms (Star c) s g) \<longleftrightarrow> s = m @ s' \<and> list_all (cmatch c) m \<and> g' = g"
  by (auto simp: star_greedy_set)

lemma ms_LazyStar_set: "(m, s', g') \<in> set (ms (LazyStar c) s g) \<longleftrightarrow> s = m @ s' \<and> list_all (cmatch c) m \<and> g' = g"
  by (auto simp: star_lazy_set)

lemma ms_Plus_set: "(m, s', g') \<in> set (ms (Plus c) s g) \<longleftrightarrow> s = m @ s' \<and> m \<noteq> [] \<and> list_all (cmatch c) m \<and> g' = g"
proof (cases s)
  case Nil then show ?thesis by auto
next
  case (Cons x xs)
  show ?thesis
  proof (cases m)
    case Nil then show ?thesis using Cons by (auto simp: star_greedy_set)
  next
    case (Cons y ys) then show ?thesis using \<open>s = x # xs\<close> by (force simp: star_greedy_set)
  qed
qed

lemma ms_Times_set: "(m, s', g') \<in> set (ms (Times n c) s g) \<longleftrightarrow> s = m @ s' \<and> length m = n \<and> list_all (cmatch c) m \<and> g' = g"
  by (auto split: option.splits simp: take_class_iff take_class_iff2)

lemma ms_Seq_set: "(m, s', g') \<in> set (ms (Seq rs) s g) \<longleftrightarrow> (m, s', g') \<in> set (ms_seq rs s g)"
  by simp

lemma ms_seq_Nil_set: "(m, s', g') \<in> set (ms_seq [] s g) \<longleftrightarrow> m = [] \<and> s' = s \<and> g' = g"
  by auto

lemmas ms_set = ms_Chr_set ms_Str_set ms_Grp_set ms_Opt_set ms_Star_set ms_LazyStar_set ms_Plus_set
  ms_Times_set ms_Seq_set ms_seq_Nil_set ms_seq_Cons_set

lemma search_Some_hd:
  "search r s = Some g \<Longrightarrow> \<exists>a t m s' rest. s = a @ t \<and> ms r t no_groups = (m, s', g) # rest"
proof (induction s)
  case Nil
  then show ?case by (auto split: list.splits)
next
  case (Cons x xs)
  show ?case
  proof (cases "ms r (x # xs) no_groups")
    case Nil
    with Cons.prems have "search r xs = Some g" by simp
    from Cons.IH[OF this] obtain a t m s' rest where "xs = a @ t" "ms r t no_groups = (m, s', g) # rest" by blast
    then have "x # xs = (x # a) @ t \<and> ms r t no_groups = (m, s', g) # rest" by simp
    then show ?thesis by blast
  next
    case (Cons y ys)
    with Cons.prems have "ms r (x # xs) no_groups = (fst y, fst (snd y), g) # ys"
      by (cases y) auto
    then have "x # xs = [] @ (x # xs) \<and> ms r (x # xs) no_groups = (fst y, fst (snd y), g) # ys" by simp
    then show ?thesis by blast
  qed
qed

lemma search_Some_in:
  assumes "search r s = Some g"
  obtains a t m s' where "s = a @ t" "(m, s', g) \<in> set (ms r t no_groups)"
proof -
  from search_Some_hd[OF assms] obtain a t m s' rest where
    "s = a @ t" "ms r t no_groups = (m, s', g) # rest" by blast
  then have "(m, s', g) \<in> set (ms r t no_groups)" by simp
  with \<open>s = a @ t\<close> that show ?thesis by blast
qed

lemma double_groups: "search re_double s = Some p \<Longrightarrow> \<exists>h1 h2. p 1 = Some h1 \<and> p 2 = Some h2"
  by (erule search_Some_in) (auto simp: re_double_def ms_set simp del: ms.simps ms_seq.simps)

lemma and_groups: "search re_and s = Some p \<Longrightarrow> \<exists>v. p 1 = Some v"
  by (erule search_Some_in) (auto simp: re_and_def ms_set simp del: ms.simps ms_seq.simps)

lemma original_author_groups: "search re_original_author s = Some p \<Longrightarrow> \<exists>v. p 1 = Some v"
  by (erule search_Some_in) (auto simp: re_original_author_def ms_set simp del: ms.simps ms_seq.simps)

lemma author_tag_groups: "search re_author_tag s = Some p \<Longrightarrow> \<exists>v. p 3 = Some v"
  by (erule search_Some_in) (auto simp: re_author_tag_def ms_set simp del: ms.simps ms_seq.simps)

lemma initial_groups: "search re_initial s = Some p \<Longrightarrow> \<exists>v. p 2 = Some v"
  by (erule search_Some_in) (auto simp: re_initial_def ms_set simp del: ms.simps ms_seq.simps)

lemma first_year_groups: "search re_first_year s = Some p \<Longrightarrow> \<exists>v. p 1 = Some v"
  by (erule search_Some_in) (auto simp: re_first_year_def ms_set simp del: ms.simps ms_seq.simps)

lemma since_groups: "search re_since s = Some p \<Longrightarrow> \<exists>v. p 2 = Some v"
  by (erule search_Some_in) (auto simp: re_since_def ms_set simp del: ms.simps ms_seq.simps)

lemma copyright_group1: "search re_copyright s = Some p \<Longrightarrow> \<exists>v. p 1 = Some v"
  by (erule search_Some_in) (auto simp: re_copyright_def ms_set simp del: ms.simps ms_seq.simps)

section \<open>The first match of a sequence\<close>

lemma concat_map_hd:
  "concat (map f L) = x # xs \<Longrightarrow> \<exists>e\<in>set L. \<exists>ys. f e = x # ys"
proof (induction L)
  case Nil then show ?case by simp
next
  case (Cons a L)
  then show ?case by (cases "f a") auto
qed

lemma ms_seq_hd:
  assumes "ms_seq (r # rs) s g = (m, s', g') # xs"
  shows "\<exists>m1 s1 g1 m2 ys. (m1, s1, g1) \<in> set (ms r s g) \<and> ms_seq rs s1 g1 = (m2, s', g') # ys \<and> m = m1 @ m2"
proof -
  from assms have "concat (map (\<lambda>(m1, s1, g1). map (\<lambda>(m2, s2, g2). (m1 @ m2, s2, g2)) (ms_seq rs s1 g1)) (ms r s g)) = (m, s', g') # xs"
    by simp
  from concat_map_hd[OF this] obtain e ys where e: "e \<in> set (ms r s g)"
    and h: "(case e of (m1, s1, g1) \<Rightarrow> map (\<lambda>(m2, s2, g2). (m1 @ m2, s2, g2)) (ms_seq rs s1 g1)) = (m, s', g') # ys"
    by blast
  obtain m1 s1 g1 where e': "e = (m1, s1, g1)" by (cases e) auto
  with h have "map (\<lambda>(m2, s2, g2). (m1 @ m2, s2, g2)) (ms_seq rs s1 g1) = (m, s', g') # ys" by simp
  then obtain z zs where z: "ms_seq rs s1 g1 = z # zs" and zz: "(case z of (m2, s2, g2) \<Rightarrow> (m1 @ m2, s2, g2)) = (m, s', g')"
    by (cases "ms_seq rs s1 g1") auto
  obtain m2 s2 g2 where z': "z = (m2, s2, g2)" by (cases z) auto
  with zz have "m = m1 @ m2" "s2 = s'" "g2 = g'" by auto
  with z z' e e' show ?thesis by blast
qed

lemma star_greedy_hd:
  "\<exists>ys. star_greedy c s = (takeWhile (cmatch c) s, dropWhile (cmatch c) s) # ys"
  by (induction s) auto

lemma dropWhile_Dot: "dropWhile (cmatch Dot) s = [] \<or> hd (dropWhile (cmatch Dot) s) = LF"
  by (induction s) auto

lemma takeWhile_Dot: "LF \<notin> set (takeWhile (cmatch Dot) s)"
  by (induction s) auto

lemma last_group_hd:
  "ms_seq (rs @ [Opt (Grp 4 (Star Dot))]) s g = (m, s', g') # xs \<Longrightarrow>
     \<exists>raw. g' 4 = Some raw \<and> suffix raw m \<and> LF \<notin> set raw \<and> (s' = [] \<or> hd s' = LF)"
proof (induction rs arbitrary: s g m s' g' xs)
  case Nil
  obtain ys where ys: "star_greedy Dot s = (takeWhile (cmatch Dot) s, dropWhile (cmatch Dot) s) # ys"
    using star_greedy_hd by blast
  from Nil have "m = takeWhile (cmatch Dot) s \<and> s' = dropWhile (cmatch Dot) s \<and> g' = g(4 \<mapsto> takeWhile (cmatch Dot) s)"
    by (auto simp: ys)
  then show ?case using dropWhile_Dot[of s] takeWhile_Dot[of s] by auto
next
  case (Cons r rs)
  from Cons.prems have "ms_seq (r # (rs @ [Opt (Grp 4 (Star Dot))])) s g = (m, s', g') # xs" by simp
  from ms_seq_hd[OF this] obtain m1 s1 g1 m2 ys where
    "ms_seq (rs @ [Opt (Grp 4 (Star Dot))]) s1 g1 = (m2, s', g') # ys" "m = m1 @ m2" by blast
  from Cons.IH[OF this(1)] this(2) show ?case by (auto simp: suffix_def)
qed

lemma copyright_raw:
  assumes "search re_copyright h = Some p"
  shows "\<exists>pre stmt post raw. h = pre @ stmt @ post \<and> prefix ''(C)'' stmt \<and> p 4 = Some raw \<and>
           suffix raw stmt \<and> LF \<notin> set raw \<and> (post = [] \<or> hd post = LF)"
proof -
  from search_Some_hd[OF assms] obtain a t m s' rest where
    h: "h = a @ t" and m: "ms re_copyright t no_groups = (m, s', p) # rest" by blast
  from m have mem: "(m, s', p) \<in> set (ms re_copyright t no_groups)" by simp
  from ms_consumes(1)[OF mem] have t: "t = m @ s'" .
  from mem have pre: "prefix ''(C)'' m"
    by (auto simp: re_copyright_def ms_Seq_set ms_seq_Cons_set ms_Str_set simp del: ms.simps ms_seq.simps)
  have "ms re_copyright t no_groups = ms_seq ([Str ''(C)'', Star Space, Str ''Copyright'', Star Space, Grp 1 (Plus Digit),
     Opt (Chr (Lit (CHR ''-''))), Opt (Grp 2 (Plus Digit)), Chr (Lit (CHR '','')), Star Space,
     Opt (Grp 3 (Str ''by'')), Star Space] @ [Opt (Grp 4 (Star Dot))]) t no_groups"
    by (simp only: re_copyright_def ms.simps(3) append.simps)
  with m have "ms_seq ([Str ''(C)'', Star Space, Str ''Copyright'', Star Space, Grp 1 (Plus Digit),
     Opt (Chr (Lit (CHR ''-''))), Opt (Grp 2 (Plus Digit)), Chr (Lit (CHR '','')), Star Space,
     Opt (Grp 3 (Str ''by'')), Star Space] @ [Opt (Grp 4 (Star Dot))]) t no_groups = (m, s', p) # rest"
    by (simp only:)
  from last_group_hd[OF this] obtain raw where
    "p 4 = Some raw" "suffix raw m" "LF \<notin> set raw" "s' = [] \<or> hd s' = LF" by blast
  with h t pre show ?thesis by blast
qed

section \<open>The fatal error\<close>

lemma warn_not_line:
  "\<not> prefix ''(C) Copyright '' (warn_no_author_2nd f)"
  "\<not> prefix ''(C) Copyright '' (warn_no_initial f)"
  "\<not> prefix ''(C) Copyright '' (warn_no_author f)"
  "\<not> prefix ''(C) Copyright '' (warn_no_year f)"
  "\<not> prefix ''(C) Copyright '' (warn_no_headers f)"
  by (simp_all add: warn_no_author_2nd_def warn_no_initial_def warn_no_author_def warn_no_year_def warn_no_headers_def)

lemma single_branch_ok:
  "\<exists>ws year authors. single_branch filename data = (ws, Inr (Some year, Some authors)) \<and>
     (\<forall>w\<in>set ws. \<not> prefix ''(C) Copyright '' w)"
  by (auto simp: single_branch_def Let_def warn_not_line split: option.splits dest!: since_groups)

lemma original_author_branch_ok:
  "\<exists>ws year authors. original_author_branch filename data (Some h1) h2 = (ws, Inr (Some year, Some authors)) \<and>
     (\<forall>w\<in>set ws. \<not> prefix ''(C) Copyright '' w)"
  by (auto simp: original_author_branch_def Let_def warn_not_line split: option.splits
      dest!: original_author_groups author_tag_groups initial_groups first_year_groups)

lemma copyright_branch_ok:
  assumes "search re_copyright h2 = Some q"
  shows "\<exists>year authors. copyright_branch filename h2 = ([], Inr (Some year, Some authors))"
proof -
  from copyright_raw[OF assms] obtain raw where r: "q 4 = Some raw" by blast
  from copyright_group1[OF assms] obtain y where y: "q 1 = Some y" by blast
  show ?thesis using assms r y
    by (auto simp: copyright_branch_def split: option.splits dest!: and_groups)
qed

lemma copyright_branch_fail:
  assumes "search re_copyright h2 = None"
  shows "\<exists>msg. copyright_branch filename h2 = ([], Inl (Exception msg))"
  using assms by (simp add: copyright_branch_def)

lemma extract_headers_cases:
  "(unparsable_copyright data \<longrightarrow> (\<exists>msg. extract_headers filename data = ([], Inl (Exception msg)))) \<and>
   (\<not> unparsable_copyright data \<longrightarrow> (\<exists>ws year authors. extract_headers filename data = (ws, Inr (Some year, Some authors)) \<and>
     (\<forall>w\<in>set ws. \<not> prefix ''(C) Copyright '' w)))"
proof (cases "search re_double data")
  case None
  then show ?thesis using single_branch_ok[of filename data]
    by (simp add: unparsable_copyright_def extract_headers_def)
next
  case (Some p)
  from double_groups[OF Some] obtain h1 h2 where h: "p 1 = Some h1" "p 2 = Some h2" by blast
  show ?thesis
  proof (cases "search re_marker h2")
    case None
    then show ?thesis using Some h original_author_branch_ok[of filename data h1 h2]
      by (simp add: unparsable_copyright_def extract_headers_def)
  next
    case m: (Some c)
    show ?thesis
    proof (cases "search re_copyright h2")
      case None
      then show ?thesis using Some h m copyright_branch_fail[OF None, of filename]
        by (simp add: unparsable_copyright_def extract_headers_def)
    next
      case q: (Some q)
      then show ?thesis using Some h m copyright_branch_ok[OF q, of filename]
        by (auto simp add: unparsable_copyright_def extract_headers_def)
    qed
  qed
qed

text \<open>
  Claim C2 says that the run ends with an error if and only if the double header pattern
  matches, the second block has the marker and the copyright statement pattern fails in it.
  On the file of length zero none of this holds, and the run ends with the error of line 19.
\<close>

theorem fatal_error_empty_file_counterexample:
  "raised (script ''A.java'' [''A.java'' \<mapsto> '''']) = Some ValueError \<and>
   \<not> unparsable_copyright ''''"
  by code_simp

text \<open>
  Claim C2, amended. For every input file that is not empty, the run ends with an error if
  and only if the double header pattern matches and the second block contains the marker
  \<^verbatim>\<open>(C)\<close> but no match of the copyright statement pattern; in that case nothing is printed.
  In every other case the run ends normally and prints warnings followed by exactly one
  copyright line (no warning begins like a copyright line).
\<close>

theorem fatal_error_iff:
  assumes "fs filename = Some data" and "data \<noteq> []"
  shows "(raised (script filename fs) \<noteq> None \<longleftrightarrow> unparsable_copyright data) \<and>
         (raised (script filename fs) \<noteq> None \<longrightarrow> printed (script filename fs) = []) \<and>
         (raised (script filename fs) = None \<longrightarrow>
            (\<exists>ws year authors.
               printed (script filename fs) = ws @ [copyright_line year authors filename] \<and>
               (\<forall>w\<in>set ws. \<not> prefix ''(C) Copyright '' w)))"
proof (cases "unparsable_copyright data")
  case True
  with extract_headers_cases[of data filename] obtain msg where
    "extract_headers filename data = ([], Inl (Exception msg))" by blast
  with assms True show ?thesis by (simp add: script_def)
next
  case False
  with extract_headers_cases[of data filename] obtain ws year authors where
    "extract_headers filename data = (ws, Inr (Some year, Some authors))"
    "\<forall>w\<in>set ws. \<not> prefix ''(C) Copyright '' w" by blast
  with assms False show ?thesis by (auto simp add: script_def)
qed

theorem fatal_error_iff_witness:
  "[''A.java'' \<mapsto> ''/* a */'' @ [LF] @ ''/* (C) 2003 Bob */''] ''A.java''
     = Some (''/* a */'' @ [LF] @ ''/* (C) 2003 Bob */'') \<and>
   ''/* a */'' @ [LF] @ ''/* (C) 2003 Bob */'' \<noteq> [] \<and>
   unparsable_copyright (''/* a */'' @ [LF] @ ''/* (C) 2003 Bob */'') \<and>
   raised (script ''A.java'' [''A.java'' \<mapsto> ''/* a */'' @ [LF] @ ''/* (C) 2003 Bob */'']) \<noteq> None \<and>
   printed (script ''A.java'' [''A.java'' \<mapsto> ''/* a */'' @ [LF] @ ''/* (C) 2003 Bob */'']) = [] \<and>
   [''B.java'' \<mapsto> ''/* a */'' @ [LF] @ ''/* b */''] ''B.java'' = Some (''/* a */'' @ [LF] @ ''/* b */'') \<and>
   ''/* a */'' @ [LF] @ ''/* b */'' \<noteq> [] \<and>
   \<not> unparsable_copyright (''/* a */'' @ [LF] @ ''/* b */'') \<and>
   raised (script ''B.java'' [''B.java'' \<mapsto> ''/* a */'' @ [LF] @ ''/* b */'']) = None \<and>
   (\<exists>ws year authors.
      printed (script ''B.java'' [''B.java'' \<mapsto> ''/* a */'' @ [LF] @ ''/* b */''])
        = ws @ [copyright_line year authors ''B.java''] \<and>
      (\<forall>w\<in>set ws. \<not> prefix ''(C) Copyright '' w))"
proof -
  have bad: "unparsable_copyright (''/* a */'' @ [LF] @ ''/* (C) 2003 Bob */'')"
    by code_simp
  have good: "\<not> unparsable_copyright (''/* a */'' @ [LF] @ ''/* b */'')"
    by code_simp
  have 1: "[''A.java'' \<mapsto> ''/* a */'' @ [LF] @ ''/* (C) 2003 Bob */''] ''A.java''
     = Some (''/* a */'' @ [LF] @ ''/* (C) 2003 Bob */'')" by simp
  have 2: "[''B.java'' \<mapsto> ''/* a */'' @ [LF] @ ''/* b */''] ''B.java''
     = Some (''/* a */'' @ [LF] @ ''/* b */'')" by simp
  have 3: "''/* a */'' @ [LF] @ ''/* (C) 2003 Bob */'' \<noteq> []" by simp
  have 4: "''/* a */'' @ [LF] @ ''/* b */'' \<noteq> []" by simp
  from fatal_error_iff[of "[''A.java'' \<mapsto> ''/* a */'' @ [LF] @ ''/* (C) 2003 Bob */'']" "''A.java''"
        "''/* a */'' @ [LF] @ ''/* (C) 2003 Bob */''", OF 1 3]
    fatal_error_iff[of "[''B.java'' \<mapsto> ''/* a */'' @ [LF] @ ''/* b */'']" "''B.java''"
        "''/* a */'' @ [LF] @ ''/* b */''", OF 2 4] bad good 1 2 3 4
  show ?thesis by blast
qed

section \<open>Stripping from the last \<^verbatim>\<open>and\<close>\<close>

lemma search_hd: "ms r s no_groups = (m, s', g) # rest \<Longrightarrow> search r s = Some g"
  by (cases s) auto

lemma star_greedy_append:
  "list_all (cmatch c) u \<Longrightarrow> \<exists>ys. star_greedy c (u @ t) = map (\<lambda>(m, r). (u @ m, r)) (star_greedy c t) @ ys"
proof (induction u)
  case Nil
  have "map (\<lambda>(m, r). ([] @ m, r)) (star_greedy c t) = star_greedy c t" by simp
  then show ?case by simp
next
  case (Cons x u)
  then obtain ys where "star_greedy c (u @ t) = map (\<lambda>(m, r). (u @ m, r)) (star_greedy c t) @ ys" by auto
  with Cons.prems have "star_greedy c ((x # u) @ t) = map (\<lambda>(m, r). ((x # u) @ m, r)) (star_greedy c t) @ (map (\<lambda>(m, r). (x # m, r)) ys @ [([], (x # u) @ t)])"
    by (simp add: case_prod_beta comp_def)
  then show ?case by blast
qed

lemma star_greedy_front:
  "\<exists>front. star_greedy c t = front @ [([], t)] \<and> (\<forall>(m, r)\<in>set front. m \<noteq> [] \<and> t = m @ r)"
proof (cases t)
  case Nil then show ?thesis by simp
next
  case (Cons x xs)
  show ?thesis
  proof (cases "cmatch c x")
    case True
    have "\<forall>(m, r)\<in>set (map (\<lambda>(m, r). (x # m, r)) (star_greedy c xs)). m \<noteq> [] \<and> t = m @ r"
      using Cons by (auto simp: star_greedy_set)
    moreover have "star_greedy c t = map (\<lambda>(m, r). (x # m, r)) (star_greedy c xs) @ [([], t)]"
      using Cons True by simp
    ultimately show ?thesis by blast
  next
    case False
    then have "star_greedy c t = [] @ [([], t)]" using Cons by simp
    then show ?thesis by (metis empty_iff list.set(1))
  qed
qed

lemma and_tail_empty:
  "\<not> space_and_prefix r \<Longrightarrow> ms_seq [Grp 2 (Seq [Chr Space, Str ''and''])] r g = []"
  by (cases r rule: space_and_prefix.cases) (auto split: option.splits simp: strip_prefix_iff)

lemma and_tail_hit:
  "space_and_prefix t \<Longrightarrow> \<exists>x. ms_seq [Grp 2 (Seq [Chr Space, Str ''and''])] t g = [x]"
  by (cases t rule: space_and_prefix.cases) (auto split: option.splits)

lemma greedy_group_then:
  "ms_seq (Grp n (Star c) # rs) s g =
     concat (map (\<lambda>(m, r). map (\<lambda>(m2, s2, g2). (m @ m2, s2, g2)) (ms_seq rs r (g(n \<mapsto> m)))) (star_greedy c s))"
  by (simp add: comp_def case_prod_unfold)

lemma concat_map_all_empty: "(\<forall>x\<in>set xs. f x = []) \<Longrightarrow> concat (map f xs) = []"
  by (induction xs) auto

lemma re_and_last:
  assumes u: "list_all (cmatch Dot) u" and t: "space_and_prefix t"
    and last: "\<forall>r\<in>set (suffixes (tl t)). \<not> space_and_prefix r"
  shows "\<exists>q. search re_and (u @ t) = Some q \<and> q 1 = Some u"
proof -
  let ?rs = "[Grp 2 (Seq [Chr Space, Str ''and''])]"
  let ?K = "\<lambda>(m, r). map (\<lambda>(m2, s2, g2). (m @ m2, s2, g2)) (ms_seq ?rs r (no_groups(1 \<mapsto> m)))"
  obtain ys where ys: "star_greedy Dot (u @ t) = map (\<lambda>(m, r). (u @ m, r)) (star_greedy Dot t) @ ys"
    using star_greedy_append[OF u] by blast
  obtain front where front: "star_greedy Dot t = front @ [([], t)]"
    and fr: "\<forall>(m, r)\<in>set front. m \<noteq> [] \<and> t = m @ r"
    using star_greedy_front by blast
  have "\<forall>x\<in>set (map (\<lambda>(m, r). (u @ m, r)) front). ?K x = []"
  proof
    fix x assume "x \<in> set (map (\<lambda>(m, r). (u @ m, r)) front)"
    then obtain m r where mr: "(m, r) \<in> set front" "x = (u @ m, r)" by auto
    with fr have "m \<noteq> []" "t = m @ r" by auto
    then have "suffix r (tl t)" by (cases m) (auto simp: suffix_def)
    with last have "\<not> space_and_prefix r" by simp
    from and_tail_empty[OF this] mr show "?K x = []" by simp
  qed
  then have e: "concat (map ?K (map (\<lambda>(m, r). (u @ m, r)) front)) = []"
    by (rule concat_map_all_empty)
  obtain x where x: "ms_seq ?rs t (no_groups(1 \<mapsto> u)) = [x]" using and_tail_hit[OF t] by blast
  obtain m2 s2 g2 where x': "x = (m2, s2, g2)" by (cases x) auto
  have g2: "g2 1 = Some u" using x x'
    by (cases t rule: space_and_prefix.cases) (auto split: option.splits if_splits)
  have "ms re_and (u @ t) no_groups = concat (map ?K (star_greedy Dot (u @ t)))"
    unfolding re_and_def ms.simps(3) by (rule greedy_group_then)
  also have "\<dots> = concat (map ?K (map (\<lambda>(m, r). (u @ m, r)) front)) @ ?K (u, t) @ concat (map ?K ys)"
    by (simp add: ys front)
  also have "\<dots> = (u @ m2, s2, g2) # concat (map ?K ys)"
    by (simp only: e append.simps prod.case x x' list.map)
  finally have "search re_and (u @ t) = Some g2" by (rule search_hd)
  with g2 show ?thesis by blast
qed

section \<open>The first match and the list of matches agree\<close>

lemma first_of_single [simp]: "first_of f [x] = f x"
  by (cases "f x") auto

lemma first_of_append:
  "first_of f (xs @ ys) = (case first_of f xs of Some v \<Rightarrow> Some v | None \<Rightarrow> first_of f ys)"
  by (induction xs) (auto split: option.splits)

lemma first_of_map: "first_of f (map h xs) = first_of (\<lambda>x. f (h x)) xs"
  by (induction xs) (auto split: option.splits)

lemma first_of_concat: "first_of f (concat xss) = first_of (first_of f) xss"
  by (induction xss) (auto simp: first_of_append split: option.splits)

lemma first_of_cong: "(\<And>x. x \<in> set xs \<Longrightarrow> f x = h x) \<Longrightarrow> first_of f xs = first_of h xs"
  by (induction xs) (auto split: option.splits)

lemma first_greedy_list:
  "first_greedy c s k = first_of (\<lambda>(m, r). k r) (star_greedy c s)"
  by (induction s) (auto simp: first_of_append first_of_map case_prod_unfold split: option.splits)

lemma first_lazy_list:
  "first_lazy c s k = first_of (\<lambda>(m, r). k r) (star_lazy c s)"
  by (induction s) (auto simp: first_of_append first_of_map case_prod_unfold split: option.splits)

lemma first_ms_list:
  "first_ms r s g k = first_of (\<lambda>(m, s', g'). k s' g') (ms r s g)"
  "first_seq rs s g k = first_of (\<lambda>(m, s', g'). k s' g') (ms_seq rs s g)"
proof (induction r s g and rs s g arbitrary: k and k rule: ms_ms_seq.induct)
  case (1 c s g) then show ?case by (auto simp del: first_of.simps(2) split: list.splits)
next
  case (2 w s g) then show ?case by (auto simp del: first_of.simps(2) split: option.splits)
next
  case (3 rs s g) then show ?case by simp
next
  case (4 n r s g)
  have "first_of (\<lambda>(m, s', g'). k s' (g'(n \<mapsto> take (length s - length s') s))) (ms r s g)
      = first_of (\<lambda>(m, s', g'). k s' (g'(n \<mapsto> m))) (ms r s g)"
    by (rule first_of_cong) (auto dest: ms_consumes(1))
  then show ?case by (simp add: 4 first_of_map case_prod_unfold)
next
  case (5 r s g) then show ?case by (auto simp: first_of_append split: option.splits)
next
  case (6 c s g) then show ?case by (simp add: first_greedy_list first_of_map case_prod_unfold)
next
  case (7 c s g) then show ?case by (simp add: first_lazy_list first_of_map case_prod_unfold)
next
  case (8 c s g) then show ?case
    by (auto simp: first_greedy_list first_of_map case_prod_unfold split: list.splits)
next
  case (9 n c s g) then show ?case by (auto simp del: first_of.simps(2) split: option.splits)
next
  case (10 s g) then show ?case by (simp split: option.splits)
next
  case (11 r rs s g)
  have "first_of (\<lambda>(m, s', g'). first_seq rs s' g' k) (ms r s g)
      = first_of (\<lambda>(m1, s1, g1). first_of (\<lambda>(m, s', g'). k s' g') (ms_seq rs s1 g1)) (ms r s g)"
    by (rule first_of_cong) (auto simp: "11.IH"(2))
  then show ?case
    by (simp add: "11.IH"(1) first_of_concat first_of_map case_prod_unfold)
qed

lemma search_first [code]:
  "search r s =
     (case first_ms r s no_groups (\<lambda>s' g'. Some g') of
        Some g \<Rightarrow> Some g
      | None \<Rightarrow> (case s of [] \<Rightarrow> None | x # xs \<Rightarrow> search r xs))"
proof -
  have "first_ms r s no_groups (\<lambda>s' g'. Some g')
      = (case ms r s no_groups of [] \<Rightarrow> None | (m, s', g) # _ \<Rightarrow> Some g)"
    by (cases "ms r s no_groups") (auto simp: first_ms_list(1))
  then show ?thesis by (cases s; cases "ms r s no_groups") auto
qed

section \<open>The raw author string\<close>

text \<open>
  Claim C10 says that the raw author string always comes from the physical line that holds
  \<^verbatim>\<open>(C) Copyright\<close>. In the pattern of line 37 the \<^verbatim>\<open>\s*\<close> after the comma crosses line
  feeds: when the line ends after the comma, group 4 is taken from the next line.
\<close>

theorem raw_author_next_line_counterexample:
  "map_option (\<lambda>p. p 2) (search re_double (''/* x */'' @ [LF] @ ''/*'' @ [LF]
       @ '' * (C) Copyright 2003-2008,'' @ [LF]
       @ '' * by Barak Naveh and Contributors.'' @ [LF] @ '' */'' @ [LF]))
     = Some (Some (LF # '' * (C) Copyright 2003-2008,'' @ LF
          # '' * by Barak Naveh and Contributors.'' @ LF # '' '')) \<and>
   map_option (\<lambda>p. p 4) (search re_copyright (LF # '' * (C) Copyright 2003-2008,'' @ LF
          # '' * by Barak Naveh and Contributors.'' @ LF # '' ''))
     = Some (Some ''* by Barak Naveh and Contributors.'') \<and>
   \<not> sublist ''* by Barak Naveh and Contributors.'' '' * (C) Copyright 2003-2008,'' \<and>
   printed (script ''A.java'' [''A.java'' \<mapsto> ''/* x */'' @ [LF] @ ''/*'' @ [LF]
       @ '' * (C) Copyright 2003-2008,'' @ [LF]
       @ '' * by Barak Naveh and Contributors.'' @ [LF] @ '' */'' @ [LF]])
     = [''(C) Copyright 2003-2016, by * by Barak Naveh, and Contributors. A.java'']"
  by code_simp

text \<open>
  Claim C10, amended. In the branch of the marked second header, the raw author string
  (group 4 of the copyright statement pattern) contains no line feed: it is the end of the
  matched statement, which begins at a \<^verbatim>\<open>(C)\<close> and may itself cross line feeds, and it runs
  to the end of the physical line on which that statement ends, never into the next one.
  When the string contains \<^verbatim>\<open>\sand\<close>, the text from the last occurrence onward is removed
  (then the periods): \<^verbatim>\<open>Alice and Bob and Contributors\<close> gives the authors
  \<^verbatim>\<open>Alice and Bob\<close>.
\<close>

theorem raw_author_one_line_last_and:
  assumes "map_option (\<lambda>p. (p 1, p 4)) (search re_copyright secondHeader) = Some (year, raw)"
  shows "\<exists>a. raw = Some a \<and> LF \<notin> set a \<and>
           (\<exists>pre stmt post. secondHeader = pre @ stmt @ post \<and> prefix ''(C)'' stmt \<and> suffix a stmt \<and>
              (post = [] \<or> hd post = LF)) \<and>
           (\<forall>u t. a = u @ t \<and> space_and_prefix t \<and> (\<forall>r\<in>set (suffixes (tl t)). \<not> space_and_prefix r) \<longrightarrow>
              copyright_branch filename secondHeader = ([], Inr (year, Some (remove_periods u)))) \<and>
           (a = ''Alice and Bob and Contributors'' \<longrightarrow>
              copyright_branch filename secondHeader = ([], Inr (year, Some ''Alice and Bob'')))"
proof -
  from assms obtain p where p: "search re_copyright secondHeader = Some p" "p 1 = year" "p 4 = raw"
    by auto
  from copyright_raw[OF p(1)] p(3) obtain pre stmt post a where
    a: "secondHeader = pre @ stmt @ post" "prefix ''(C)'' stmt" "raw = Some a" "suffix a stmt"
       "LF \<notin> set a" "post = [] \<or> hd post = LF" by auto
  have strip: "copyright_branch filename secondHeader = ([], Inr (year, Some (remove_periods u)))"
    if "a = u @ t" "space_and_prefix t" "\<forall>r\<in>set (suffixes (tl t)). \<not> space_and_prefix r" for u t
  proof -
    from a(5) that(1) have "list_all (cmatch Dot) u" by (auto simp: list_all_iff)
    from re_and_last[OF this that(2,3)] obtain q where "search re_and (u @ t) = Some q" "q 1 = Some u"
      by blast
    with p a(3) that(1) show ?thesis by (simp add: copyright_branch_def)
  qed
  have ex: "copyright_branch filename secondHeader = ([], Inr (year, Some ''Alice and Bob''))"
    if "a = ''Alice and Bob and Contributors''"
  proof -
    have "copyright_branch filename secondHeader = ([], Inr (year, Some (remove_periods ''Alice and Bob'')))"
      by (rule strip[of "''Alice and Bob''" "'' and Contributors''"]) (simp_all add: that)
    then show ?thesis by (simp add: remove_periods_def)
  qed
  from a strip ex show ?thesis by blast
qed

theorem raw_author_one_line_last_and_witness:
  "map_option (\<lambda>p. (p 1, p 4)) (search re_copyright ('' * (C) Copyright 2010, by Alice and Bob and Contributors'' @ [LF] @ '' *''))
     = Some (Some ''2010'', Some ''Alice and Bob and Contributors'') \<and>
   copyright_branch ''A.java'' ('' * (C) Copyright 2010, by Alice and Bob and Contributors'' @ [LF] @ '' *'')
     = ([], Inr (Some ''2010'', Some ''Alice and Bob''))"
proof -
  have h: "map_option (\<lambda>p. (p 1, p 4)) (search re_copyright ('' * (C) Copyright 2010, by Alice and Bob and Contributors'' @ [LF] @ '' *''))
     = Some (Some ''2010'', Some ''Alice and Bob and Contributors'')"
    by code_simp
  from raw_author_one_line_last_and[OF h, of "''A.java''"] h show ?thesis by blast
qed

section \<open>The copyright statement of the second header\<close>

lemma search_skip:
  "(\<forall>i<length a. ms r (drop i (a @ t)) no_groups = []) \<Longrightarrow> search r (a @ t) = search r t"
proof (induction a)
  case Nil then show ?case by simp
next
  case (Cons x a)
  from Cons.prems have 0: "ms r (x # a @ t) no_groups = []" by force
  have "\<forall>i<length a. ms r (drop i (a @ t)) no_groups = []"
  proof (intro allI impI)
    fix i assume "i < length a"
    then have "Suc i < length (x # a)" by simp
    with Cons.prems have "ms r (drop (Suc i) ((x # a) @ t)) no_groups = []" by blast
    then show "ms r (drop i (a @ t)) no_groups = []" by simp
  qed
  from Cons.IH[OF this] 0 show ?case by simp
qed

lemma search_later: "ms r t no_groups \<noteq> [] \<Longrightarrow> search r (a @ t) \<noteq> None"
proof (induction a)
  case Nil then show ?case by (simp add: search_hit del: search.simps)
next
  case (Cons x a)
  then show ?case by (cases "ms r (x # a @ t) no_groups") auto
qed

lemma no_early_prefix:
  assumes "\<not> sublist w a" and "w = c # w'" and "c \<notin> set w'" and "prefix w k" and "i < length a"
  shows "strip_prefix w (drop i (a @ k)) = None"
proof -
  have "\<not> prefix w (drop i a @ k)"
  proof
    assume "prefix w (drop i a @ k)"
    then consider "prefix w (drop i a)" | us where "w = drop i a @ us" "prefix us k"
      unfolding prefix_append by blast
    then show False
    proof cases
      case 1
      then obtain ss where "drop i a = w @ ss" by (auto simp: prefix_def)
      then have "a = take i a @ w @ ss" by (metis append_take_drop_id)
      with assms(1) show False unfolding sublist_def by blast
    next
      case 2
      from assms(5) obtain d ds where d: "drop i a = d # ds" by (cases "drop i a") auto
      with 2(1) assms(2) have w': "w' = ds @ us" and "d = c" by auto
      show False
      proof (cases us)
        case Nil
        with 2(1) have "drop i a = w" by simp
        then have "a = take i a @ w @ []" by (metis append_take_drop_id append_Nil2)
        with assms(1) show False unfolding sublist_def by blast
      next
        case (Cons u us')
        with 2(2) assms(2,4) have "u = c" by (auto simp: prefix_def)
        with Cons w' assms(3) show False by simp
      qed
    qed
  qed
  with assms(5) show ?thesis by (simp add: strip_prefix_None_iff)
qed

lemma search_Nil_double: "search re_double [] = None"
  by (simp add: re_double_def)

lemma marker_found: "search re_marker (a @ ''(C)'' @ t) \<noteq> None"
  by (rule search_later) (simp add: re_marker_def)

lemma no_match_before_drop:
  "no_match_before r a t \<Longrightarrow> i < length a \<Longrightarrow> ms r (drop i (a @ t)) no_groups = []"
proof (induction a arbitrary: i)
  case Nil then show ?case by simp
next
  case (Cons x a) then show ?case by (cases i) auto
qed

lemma no_match_before_skip:
  "no_match_before r a t \<Longrightarrow> search r (a @ t) = search r t"
  using no_match_before_drop[of r a t] by (intro search_skip) blast

lemma first_seq_append:
  "first_seq (rs1 @ rs2) s g k = first_seq rs1 s g (\<lambda>s1 g1. first_seq rs2 s1 g1 k)"
  by (induction rs1 arbitrary: s g) simp_all

lemma first_greedy_total:
  "(\<forall>r. K r \<noteq> None) \<Longrightarrow> first_greedy c s K = K (dropWhile (cmatch c) s)"
proof (induction s)
  case Nil then show ?case by simp
next
  case (Cons x s)
  from Cons.prems obtain v where "K (dropWhile (cmatch c) s) = Some v" by (meson option.exhaust)
  with Cons show ?case by simp
qed

lemma take_up_to_dropWhile: "take (length s - length (dropWhile p s)) s = takeWhile p s"
proof (induction s)
  case Nil then show ?case by simp
next
  case (Cons x s)
  have "length (dropWhile p s) \<le> length s" by (rule length_dropWhile_le)
  with Cons show ?case by (simp add: Suc_diff_le)
qed

lemma last_group_first:
  "first_seq [Opt (Grp 4 (Star Dot))] s g (\<lambda>s' g'. Some g') = Some (g(4 \<mapsto> takeWhile (cmatch Dot) s))"
  by (simp add: first_greedy_total take_up_to_dropWhile)

lemma copyright_line_eval:
  "map_option (\<lambda>p. (p 1, p 4))
     (search re_copyright (''(C) Copyright 2003-2008, by Barak Naveh and Contributors.'' @ b))
   = Some (Some ''2003'', Some (''Barak Naveh and Contributors.'' @ takeWhile (cmatch Dot) b))"
proof -
  have "first_ms re_copyright s no_groups (\<lambda>s' g'. Some g')
      = first_seq [Str ''(C)'', Star Space, Str ''Copyright'', Star Space, Grp 1 (Plus Digit),
          Opt (Chr (Lit (CHR ''-''))), Opt (Grp 2 (Plus Digit)), Chr (Lit (CHR '','')), Star Space,
          Opt (Grp 3 (Str ''by'')), Star Space] s no_groups
          (\<lambda>s1 g1. Some (g1(4 \<mapsto> takeWhile (cmatch Dot) s1)))" for s
    using first_seq_append[of "[Str ''(C)'', Star Space, Str ''Copyright'', Star Space,
          Grp 1 (Plus Digit), Opt (Chr (Lit (CHR ''-''))), Opt (Grp 2 (Plus Digit)),
          Chr (Lit (CHR '','')), Star Space, Opt (Grp 3 (Str ''by'')), Star Space]"
        "[Opt (Grp 4 (Star Dot))]" s no_groups "\<lambda>s' g'. Some g'"]
    by (simp only: re_copyright_def first_ms.simps(3) append.simps last_group_first)
  then show ?thesis
    apply (subst search_first)
    apply (simp add: no_groups_def del: search.simps)
    done
qed


lemma space_and_prefix_space: "space_and_prefix (z # r) \<Longrightarrow> cmatch Space z"
  by (cases "z # r" rule: space_and_prefix.cases) auto

lemma Dot_not_LF: "cmatch Dot = (\<lambda>c. c \<noteq> LF)"
  by (rule ext) simp

lemma contributors_no_and:
  assumes "\<forall>r\<in>set (suffixes tt). \<not> space_and_prefix r"
  shows "\<forall>r\<in>set (suffixes (''and Contributors.'' @ tt)). \<not> space_and_prefix r"
  using assms by (auto simp: suffixes_append dest!: space_and_prefix_space)

text \<open>
  Claim C3 says that every double header whose second block contains a line
  \<^verbatim>\<open>(C) Copyright 2003-2008, by Barak Naveh and Contributors.\<close> gives the year 2003 and the
  authors Barak Naveh. The search of line 38 returns the first copyright statement of the
  second block: when another one precedes that line, the year and the authors are taken
  from there.
\<close>

theorem earlier_copyright_statement_counterexample:
  "map_option (\<lambda>p. p 2) (search re_double (''/* x */'' @ [LF] @ ''/*'' @ [LF]
       @ '' * (C) Copyright 1999, by Sun.'' @ [LF]
       @ '' * (C) Copyright 2003-2008, by Barak Naveh and Contributors.'' @ [LF] @ '' */'' @ [LF]))
     = Some (Some ((LF # '' * (C) Copyright 1999, by Sun.'' @ LF # '' * '')
          @ ''(C) Copyright 2003-2008, by Barak Naveh and Contributors.'' @ (LF # '' ''))) \<and>
   printed (script ''A.java'' [''A.java'' \<mapsto> ''/* x */'' @ [LF] @ ''/*'' @ [LF]
       @ '' * (C) Copyright 1999, by Sun.'' @ [LF]
       @ '' * (C) Copyright 2003-2008, by Barak Naveh and Contributors.'' @ [LF] @ '' */'' @ [LF]])
     = [''(C) Copyright 1999-2016, by Sun, and Contributors. A.java'']"
  by code_simp

text \<open>
  Claim C3, amended. For every input file in which the double header pattern matches and
  the second block contains the line
  \<^verbatim>\<open>(C) Copyright 2003-2008, by Barak Naveh and Contributors.\<close>, where no copyright
  statement (no match of the pattern of line 37) starts before that line in the block and
  the rest of its physical line holds no further \<^verbatim>\<open>\sand\<close> (as when the line ends there,
  with a line feed, with a carriage return and a line feed, or with the block), the script
  prints the year 2003 (group 1, the first year of the range) and the authors Barak Naveh
  (the text from the last \<^verbatim>\<open> and\<close> onward stripped, the periods removed), and ends normally.
\<close>

theorem first_copyright_statement_wins:
  assumes fl: "fs filename = Some data"
    and double: "map_option (\<lambda>p. p 2) (search re_double data)
        = Some (Some (a @ ''(C) Copyright 2003-2008, by Barak Naveh and Contributors.'' @ b))"
    and first: "no_match_before re_copyright a
        (''(C) Copyright 2003-2008, by Barak Naveh and Contributors.'' @ b)"
    and eol: "\<forall>r\<in>set (suffixes (takeWhile (\<lambda>c. c \<noteq> LF) b)). \<not> space_and_prefix r"
  shows "printed (script filename fs) = [copyright_line ''2003'' ''Barak Naveh'' filename] \<and>
         raised (script filename fs) = None"
proof -
  let ?line = "''(C) Copyright 2003-2008, by Barak Naveh and Contributors.''"
  let ?h2 = "a @ ?line @ b"
  let ?tt = "takeWhile (cmatch Dot) b"
  from double obtain p where p: "search re_double data = Some p" "p 2 = Some ?h2" by auto
  from p(1) have ne: "data \<noteq> []" using search_Nil_double by auto
  have marker: "search re_marker ?h2 \<noteq> None"
    using marker_found[of a "'' Copyright 2003-2008, by Barak Naveh and Contributors.'' @ b"] by simp
  from first have "search re_copyright ?h2 = search re_copyright (?line @ b)"
    by (rule no_match_before_skip)
  with copyright_line_eval[of b] obtain q where q: "search re_copyright ?h2 = Some q"
    "q 1 = Some ''2003''" "q 4 = Some (''Barak Naveh and Contributors.'' @ ?tt)" by auto
  have "list_all (cmatch Dot) ''Barak Naveh''" by simp
  moreover have "space_and_prefix ('' and Contributors.'' @ ?tt)" by simp
  moreover from eol have "\<forall>r\<in>set (suffixes (tl ('' and Contributors.'' @ ?tt))). \<not> space_and_prefix r"
    using contributors_no_and[of ?tt] by (simp add: Dot_not_LF)
  ultimately obtain q' where "search re_and (''Barak Naveh'' @ '' and Contributors.'' @ ?tt) = Some q'"
    "q' 1 = Some ''Barak Naveh''"
    using re_and_last[of "''Barak Naveh''" "'' and Contributors.'' @ ?tt"] by blast
  then have q': "search re_and (''Barak Naveh and Contributors.'' @ ?tt) = Some q'"
    "q' 1 = Some ''Barak Naveh''" by simp_all
  from q q' have "copyright_branch filename ?h2 = ([], Inr (Some ''2003'', Some ''Barak Naveh''))"
    by (simp add: copyright_branch_def remove_periods_def)
  with p marker have "extract_headers filename data = ([], Inr (Some ''2003'', Some ''Barak Naveh''))"
    by (auto simp add: extract_headers_def)
  with fl ne show ?thesis by (simp add: script_def)
qed

theorem first_copyright_statement_wins_witness:
  "[''A.java'' \<mapsto> ''/* x */'' @ [CR, LF] @ ''/*'' @ [CR, LF] @ '' * (C) JGraphT'' @ [CR, LF]
       @ '' * (C) Copyright 2003-2008, by Barak Naveh and Contributors.'' @ [CR, LF] @ '' */'' @ [CR, LF]] ''A.java''
     = Some (''/* x */'' @ [CR, LF] @ ''/*'' @ [CR, LF] @ '' * (C) JGraphT'' @ [CR, LF]
       @ '' * (C) Copyright 2003-2008, by Barak Naveh and Contributors.'' @ [CR, LF] @ '' */'' @ [CR, LF]) \<and>
   map_option (\<lambda>p. p 2) (search re_double (''/* x */'' @ [CR, LF] @ ''/*'' @ [CR, LF] @ '' * (C) JGraphT'' @ [CR, LF]
       @ '' * (C) Copyright 2003-2008, by Barak Naveh and Contributors.'' @ [CR, LF] @ '' */'' @ [CR, LF]))
     = Some (Some ((CR # LF # '' * (C) JGraphT'' @ CR # LF # '' * '')
          @ ''(C) Copyright 2003-2008, by Barak Naveh and Contributors.'' @ (CR # LF # '' ''))) \<and>
   no_match_before re_copyright (CR # LF # '' * (C) JGraphT'' @ CR # LF # '' * '')
     (''(C) Copyright 2003-2008, by Barak Naveh and Contributors.'' @ (CR # LF # '' '')) \<and>
   list_all (\<lambda>r. \<not> space_and_prefix r) (suffixes (takeWhile (\<lambda>c. c \<noteq> LF) (CR # LF # '' ''))) \<and>
   printed (script ''A.java'' [''A.java'' \<mapsto> ''/* x */'' @ [CR, LF] @ ''/*'' @ [CR, LF] @ '' * (C) JGraphT'' @ [CR, LF]
       @ '' * (C) Copyright 2003-2008, by Barak Naveh and Contributors.'' @ [CR, LF] @ '' */'' @ [CR, LF]])
     = [''(C) Copyright 2003-2016, by Barak Naveh, and Contributors. A.java''] \<and>
   raised (script ''A.java'' [''A.java'' \<mapsto> ''/* x */'' @ [CR, LF] @ ''/*'' @ [CR, LF] @ '' * (C) JGraphT'' @ [CR, LF]
       @ '' * (C) Copyright 2003-2008, by Barak Naveh and Contributors.'' @ [CR, LF] @ '' */'' @ [CR, LF]]) = None"
proof -
  let ?data = "''/* x */'' @ [CR, LF] @ ''/*'' @ [CR, LF] @ '' * (C) JGraphT'' @ [CR, LF]
       @ '' * (C) Copyright 2003-2008, by Barak Naveh and Contributors.'' @ [CR, LF] @ '' */'' @ [CR, LF]"
  let ?a = "CR # LF # '' * (C) JGraphT'' @ CR # LF # '' * ''"
  let ?b = "CR # LF # '' ''"
  have 1: "[''A.java'' \<mapsto> ?data] ''A.java'' = Some ?data" by simp
  have 2: "map_option (\<lambda>p. p 2) (search re_double ?data)
     = Some (Some (?a @ ''(C) Copyright 2003-2008, by Barak Naveh and Contributors.'' @ ?b))"
    by code_simp
  have 3: "no_match_before re_copyright ?a
     (''(C) Copyright 2003-2008, by Barak Naveh and Contributors.'' @ ?b)" by code_simp
  have 4: "\<forall>r\<in>set (suffixes (takeWhile (\<lambda>c. c \<noteq> LF) ?b)). \<not> space_and_prefix r" by code_simp
  have 5: "list_all (\<lambda>r. \<not> space_and_prefix r) (suffixes (takeWhile (\<lambda>c. c \<noteq> LF) ?b))"
    by code_simp
  from first_copyright_statement_wins[of "[''A.java'' \<mapsto> ?data]" "''A.java''" ?data ?a ?b, OF 1 2 3 4]
    1 2 3 5
  show ?thesis by (simp add: copyright_line_def)
qed

section \<open>The year of the first header\<close>

lemma first_lazy_skip:
  "list_all (cmatch c) m \<Longrightarrow> (\<forall>j<length m. k (drop j (m @ t)) = None) \<Longrightarrow>
     first_lazy c (m @ t) k = first_lazy c t k"
proof (induction m)
  case Nil then show ?case by simp
next
  case (Cons x m)
  from Cons.prems(2) have 0: "k (x # m @ t) = None" by force
  have "\<forall>j<length m. k (drop j (m @ t)) = None"
  proof (intro allI impI)
    fix j assume "j < length m"
    then have "Suc j < length (x # m)" by simp
    with Cons.prems(2) have "k (drop (Suc j) ((x # m) @ t)) = None" by blast
    then show "k (drop j (m @ t)) = None" by simp
  qed
  with Cons.IH Cons.prems(1) 0 show ?case by simp
qed

lemma first_lazy_here: "k t = Some v \<Longrightarrow> first_lazy c t k = Some v"
  by (cases t) auto

lemma no_range_before_drop:
  "no_range_before m t \<Longrightarrow> j < length m \<Longrightarrow> \<not> year_range_prefix (drop j (m @ t))"
proof (induction m arbitrary: j)
  case Nil then show ?case by simp
next
  case (Cons x m) then show ?case by (cases j) auto
qed

lemma year_tail_none:
  "\<not> year_range_prefix s \<Longrightarrow>
     first_seq [Times 4 Digit, Chr (Lit (CHR ''-'')), Grp 1 (Times 4 Digit)] s g k = None"
  by (auto simp: year_range_prefix_def split: option.splits list.splits)

lemma year_tail_some:
  assumes "length y1 = 4" "list_all (cmatch Digit) y1" "length y2 = 4" "list_all (cmatch Digit) y2"
  shows "first_seq [Times 4 Digit, Chr (Lit (CHR ''-'')), Grp 1 (Times 4 Digit)]
           (y1 @ ''-'' @ y2 @ b) g (\<lambda>s' g'. Some g') = Some (g(1 \<mapsto> y2))"
proof -
  have 1: "take_class 4 Digit (y1 @ ''-'' @ y2 @ b) = Some (y1, ''-'' @ y2 @ b)"
    using assms by (simp add: take_class_iff)
  have 2: "take_class 4 Digit (y2 @ b) = Some (y2, b)"
    using assms by (simp add: take_class_iff)
  show ?thesis using 1 2 assms(3) by simp
qed

lemma first_year_found:
  assumes first: "\<not> sublist ''(C)'' a" and line: "LF \<notin> set m"
    and y: "length y1 = 4" "list_all (cmatch Digit) y1" "length y2 = 4" "list_all (cmatch Digit) y2"
    and nearest: "no_range_before m (y1 @ ''-'' @ y2 @ b)"
  shows "map_option (\<lambda>p. p 1) (search re_first_year (a @ ''(C)'' @ m @ y1 @ ''-'' @ y2 @ b)) = Some (Some y2)"
proof -
  let ?t = "y1 @ ''-'' @ y2 @ b"
  let ?k = "\<lambda>r. first_seq [Times 4 Digit, Chr (Lit (CHR ''-'')), Grp 1 (Times 4 Digit)] r no_groups (\<lambda>s' g'. Some g')"
  have "\<forall>i<length a. ms re_first_year (drop i (a @ ''(C)'' @ m @ ?t)) no_groups = []"
  proof (intro allI impI)
    fix i assume "i < length a"
    from no_early_prefix[OF first _ _ _ this, of "CHR ''(''" "''C)''" "''(C)'' @ m @ ?t"]
    have "strip_prefix ''(C)'' (drop i (a @ ''(C)'' @ m @ ?t)) = None" by simp
    then show "ms re_first_year (drop i (a @ ''(C)'' @ m @ ?t)) no_groups = []"
      by (simp add: re_first_year_def)
  qed
  then have skip: "search re_first_year (a @ ''(C)'' @ m @ ?t) = search re_first_year (''(C)'' @ m @ ?t)"
    by (rule search_skip)
  have "\<forall>j<length m. ?k (drop j (m @ ?t)) = None"
    using no_range_before_drop[OF nearest] year_tail_none by blast
  moreover from line have "list_all (cmatch Dot) m" by (auto simp: list_all_iff)
  ultimately have "first_lazy Dot (m @ ?t) ?k = first_lazy Dot ?t ?k"
    by (rule first_lazy_skip[rotated])
  also have "\<dots> = Some (no_groups(1 \<mapsto> y2))"
    by (rule first_lazy_here) (rule year_tail_some[OF y])
  finally have "first_ms re_first_year (''(C)'' @ m @ ?t) no_groups (\<lambda>s' g'. Some g') = Some (no_groups(1 \<mapsto> y2))"
    by (simp add: re_first_year_def)
  then have "search re_first_year (''(C)'' @ m @ ?t) = Some (no_groups(1 \<mapsto> y2))"
    by (subst search_first) simp
  with skip show ?thesis by simp
qed


lemma warnings_differ: "warn_no_initial f \<noteq> warn_no_author_2nd f"
  by (simp add: warn_no_initial_def warn_no_author_2nd_def)

text \<open>
  Claim C4 says that, when the second block has neither the marker nor an initial version
  line, a year range anywhere in the first block gives the year (its second year). The
  pattern of line 69 begins with \<^verbatim>\<open>\(C\)\<close>: a range with no \<^verbatim>\<open>(C)\<close> before it on its
  line is not found, the year stays 2016 and the warning is printed.
\<close>

theorem year_range_without_marker_counterexample:
  "map_option (\<lambda>p. (p 1, p 2)) (search re_double (''/* 2003-2008 */'' @ [LF] @ ''/* x */''))
     = Some (Some '' 2003-2008 '', Some '' x '') \<and>
   search re_marker '' x '' = None \<and> search re_initial '' x '' = None \<and>
   printed (script ''A.java'' [''A.java'' \<mapsto> ''/* 2003-2008 */'' @ [LF] @ ''/* x */'']) =
     [warn_no_author_2nd ''A.java'', warn_no_initial ''A.java'',
      ''(C) Copyright 2016-2016, by Barak Naveh, and Contributors. A.java'']"
  by code_simp

text \<open>
  Claim C4, amended. For every double header input whose second block lacks \<^verbatim>\<open>(C)\<close> and
  has no match of the initial version pattern, if the first block contains \<^verbatim>\<open>(C)\<close> (its
  first one) followed on the same line by a year range \<^verbatim>\<open>YYYY-YYYY\<close> (the first one after
  that \<^verbatim>\<open>(C)\<close>), then the printed year is the second year of that range, no default year
  warning is printed, and the run ends normally.
\<close>

theorem first_header_year_range:
  assumes fl: "fs filename = Some data"
    and double: "map_option (\<lambda>p. (p 1, p 2)) (search re_double data)
        = Some (Some (a @ ''(C)'' @ m @ y1 @ ''-'' @ y2 @ b), Some secondHeader)"
    and nomarker: "search re_marker secondHeader = None"
    and noinitial: "search re_initial secondHeader = None"
    and first: "\<not> sublist ''(C)'' a"
    and line: "LF \<notin> set m"
    and y: "length y1 = 4" "list_all (cmatch Digit) y1" "length y2 = 4" "list_all (cmatch Digit) y2"
    and nearest: "no_range_before m (y1 @ ''-'' @ y2 @ b)"
  shows "\<exists>ws authors. printed (script filename fs) = ws @ [copyright_line y2 authors filename] \<and>
           warn_no_initial filename \<notin> set ws \<and> raised (script filename fs) = None"
proof -
  let ?h1 = "a @ ''(C)'' @ m @ y1 @ ''-'' @ y2 @ b"
  from double obtain p where p: "search re_double data = Some p" "p 1 = Some ?h1"
    "p 2 = Some secondHeader" by auto
  from p(1) have ne: "data \<noteq> []" using search_Nil_double by auto
  from first_year_found[OF first line y nearest] obtain q where
    q: "search re_first_year ?h1 = Some q" "q 1 = Some y2" by auto
  have "\<exists>ws authors. original_author_branch filename data (Some ?h1) secondHeader
          = (ws, Inr (Some y2, Some authors)) \<and> warn_no_initial filename \<notin> set ws"
    using noinitial q
    by (auto simp: original_author_branch_def warnings_differ split: option.splits
        dest!: original_author_groups author_tag_groups)
  then obtain ws authors where
    "original_author_branch filename data (Some ?h1) secondHeader = (ws, Inr (Some y2, Some authors))"
    "warn_no_initial filename \<notin> set ws" by blast
  with p nomarker have "extract_headers filename data = (ws, Inr (Some y2, Some authors))"
    by (simp add: extract_headers_def)
  with fl ne have "printed (script filename fs) = ws @ [copyright_line y2 authors filename]"
    "raised (script filename fs) = None" by (simp_all add: script_def)
  with \<open>warn_no_initial filename \<notin> set ws\<close> show ?thesis by blast
qed

theorem first_header_year_range_witness:
  "[''A.java'' \<mapsto> ''/* (C) Copyright 2003-2008 */'' @ [LF] @ ''/* x */''] ''A.java''
     = Some (''/* (C) Copyright 2003-2008 */'' @ [LF] @ ''/* x */'') \<and>
   map_option (\<lambda>p. (p 1, p 2)) (search re_double (''/* (C) Copyright 2003-2008 */'' @ [LF] @ ''/* x */''))
     = Some (Some ('' '' @ ''(C)'' @ '' Copyright '' @ ''2003'' @ ''-'' @ ''2008'' @ '' ''), Some '' x '') \<and>
   search re_marker '' x '' = None \<and> search re_initial '' x '' = None \<and>
   \<not> sublist ''(C)'' '' '' \<and> LF \<notin> set '' Copyright '' \<and>
   length ''2003'' = 4 \<and> list_all (cmatch Digit) ''2003'' \<and>
   length ''2008'' = 4 \<and> list_all (cmatch Digit) ''2008'' \<and>
   no_range_before '' Copyright '' (''2003'' @ ''-'' @ ''2008'' @ '' '') \<and>
   (\<exists>ws authors. printed (script ''A.java'' [''A.java'' \<mapsto> ''/* (C) Copyright 2003-2008 */'' @ [LF] @ ''/* x */''])
        = ws @ [copyright_line ''2008'' authors ''A.java''] \<and>
      warn_no_initial ''A.java'' \<notin> set ws \<and>
      raised (script ''A.java'' [''A.java'' \<mapsto> ''/* (C) Copyright 2003-2008 */'' @ [LF] @ ''/* x */'']) = None)"
proof -
  let ?data = "''/* (C) Copyright 2003-2008 */'' @ [LF] @ ''/* x */''"
  have 1: "[''A.java'' \<mapsto> ?data] ''A.java'' = Some ?data" by simp
  have 2: "map_option (\<lambda>p. (p 1, p 2)) (search re_double ?data)
     = Some (Some ('' '' @ ''(C)'' @ '' Copyright '' @ ''2003'' @ ''-'' @ ''2008'' @ '' ''), Some '' x '')"
    by code_simp
  have 3: "search re_marker '' x '' = None" by code_simp
  have 4: "search re_initial '' x '' = None" by code_simp
  have 5: "\<not> sublist ''(C)'' '' ''" by code_simp
  have 6: "LF \<notin> set '' Copyright ''" by simp
  have 7: "length ''2003'' = 4" "list_all (cmatch Digit) ''2003''"
    "length ''2008'' = 4" "list_all (cmatch Digit) ''2008''" by simp_all
  have 8: "no_range_before '' Copyright '' (''2003'' @ ''-'' @ ''2008'' @ '' '')" by code_simp
  from first_header_year_range[of "[''A.java'' \<mapsto> ?data]" "''A.java''" ?data "'' ''" "'' Copyright ''" "''2003''" "''2008''" "'' ''" "'' x ''",
      OF 1 2 3 4 5 6 7 8] 1 2 3 4 5 6 7 8
  show ?thesis by blast
qed

end
